theory Spec2Isabelle
  imports Main "HOL-Library.Sublist"
begin

section \<open>get\_resilabels: gesamt alignment reports to residue label files\<close>

text \<open>
  A shallow embedding of \<^verbatim>\<open>get_resilabels.py\<close>. Text is a \<^typ>\<open>string\<close>; a character
  stands for a code point below 256. The interpreter is taken to be Python 3.7 or later
  (dictionaries keep insertion order, \<^verbatim>\<open>int\<close> accepts underscores between digits) with
  the POSIX \<^verbatim>\<open>os.path\<close>. An exception is a value of \<open>py_error\<close>; a function that can
  raise returns \<open>py_error + 'a\<close> with \<open>Inl\<close> for the exception.
\<close>

subsection \<open>The Python operations the script uses\<close>

datatype py_error = IndexError | ValueError | KeyError | OSError

text \<open>\<^verbatim>\<open>[f(x) for x in xs]\<close> where \<^verbatim>\<open>f\<close> may raise: the first exception ends the loop.\<close>

fun map_res :: "('a \<Rightarrow> py_error + 'b) \<Rightarrow> 'a list \<Rightarrow> py_error + 'b list" where
  "map_res f [] = Inr []"
| "map_res f (x # xs) =
     (case f x of
        Inl e \<Rightarrow> Inl e
      | Inr y \<Rightarrow> (case map_res f xs of Inl e \<Rightarrow> Inl e | Inr ys \<Rightarrow> Inr (y # ys)))"

text \<open>The single quote, the tab and the newline.\<close>

definition quote :: char where
  "quote = CHR 0x27"

definition tab :: char where
  "tab = CHR 0x09"

definition newline :: char where
  "newline = CHR 0x0A"

text \<open>\<^verbatim>\<open>str.isspace\<close> on one character, for the code points below 256.\<close>

definition is_space :: "char \<Rightarrow> bool" where
  "is_space c = (c \<in> set [CHR 0x09, CHR 0x0A, CHR 0x0B, CHR 0x0C, CHR 0x0D, CHR 0x1C,
                           CHR 0x1D, CHR 0x1E, CHR 0x1F, CHR 0x20, CHR 0x85, CHR 0xA0])"

text \<open>\<^verbatim>\<open>s.strip()\<close>: the characters of a class are dropped at both ends.\<close>

definition strip_chars :: "(char \<Rightarrow> bool) \<Rightarrow> string \<Rightarrow> string" where
  "strip_chars cls s = rev (dropWhile cls (rev (dropWhile cls s)))"

definition py_strip :: "string \<Rightarrow> string" where
  "py_strip s = strip_chars is_space s"

text \<open>\<^verbatim>\<open>sub in s\<close> for strings.\<close>

fun is_substr :: "string \<Rightarrow> string \<Rightarrow> bool" where
  "is_substr sub [] = (sub = [])"
| "is_substr sub (c # cs) = (prefix sub (c # cs) \<or> is_substr sub cs)"

text \<open>
  \<^verbatim>\<open>s.split(sep)\<close>: the pieces between the occurrences of \<open>sep\<close>, found from the left
  without overlap. Python raises ValueError for an empty separator; the script passes
  only the literals \<^verbatim>\<open>"'"\<close>, \<^verbatim>\<open>"|"\<close> and \<^verbatim>\<open>"| |"\<close>, and here an empty separator never
  matches.
\<close>

fun py_split :: "string \<Rightarrow> string \<Rightarrow> string list" where
  "py_split sep [] = [[]]"
| "py_split sep (c # cs) =
     (if sep \<noteq> [] \<and> prefix sep (c # cs)
      then [] # py_split sep (drop (length sep) (c # cs))
      else (case py_split sep cs of
              [] \<Rightarrow> [[c]]
            | piece # pieces \<Rightarrow> (c # piece) # pieces))"

text \<open>\<^verbatim>\<open>s.replace(old, new)\<close> for a non-empty \<open>old\<close>, from the left without overlap.\<close>

fun py_replace :: "string \<Rightarrow> string \<Rightarrow> string \<Rightarrow> string" where
  "py_replace old new [] = []"
| "py_replace old new (c # cs) =
     (if old \<noteq> [] \<and> prefix old (c # cs)
      then new @ py_replace old new (drop (length old) (c # cs))
      else c # py_replace old new cs)"

text \<open>\<^verbatim>\<open>sep.join(parts)\<close>\<close>

fun py_join :: "string \<Rightarrow> string list \<Rightarrow> string" where
  "py_join sep [] = []"
| "py_join sep [p] = p"
| "py_join sep (p # q # ps) = p @ sep @ py_join sep (q # ps)"

text \<open>
  \<^verbatim>\<open>xs[start:stop]\<close>: a bound that is \<^verbatim>\<open>None\<close> is the end of the list on its side, a
  negative bound counts from the end, and every bound is clipped to the list. A slice
  never raises.
\<close>

definition slice_bound :: "nat \<Rightarrow> int option \<Rightarrow> nat \<Rightarrow> nat" where
  "slice_bound n bound dflt =
     (case bound of
        None \<Rightarrow> dflt
      | Some k \<Rightarrow> if k < 0 then nat (int n + k) else min n (nat k))"

definition py_slice :: "'a list \<Rightarrow> int option \<Rightarrow> int option \<Rightarrow> 'a list" where
  "py_slice xs start stop =
     (let n = length xs;
          lo = slice_bound n start 0;
          hi = slice_bound n stop n
      in take (hi - lo) (drop lo xs))"

text \<open>\<^verbatim>\<open>xs[i]\<close> for an index that is not negative.\<close>

definition py_index :: "'a list \<Rightarrow> nat \<Rightarrow> py_error + 'a" where
  "py_index xs i = (if i < length xs then Inr (xs ! i) else Inl IndexError)"

text \<open>
  \<^verbatim>\<open>int(s)\<close>: surrounding whitespace is dropped, then an optional sign, then decimal
  digits, where one underscore may stand between two digits. Anything else is a
  ValueError, here \<open>None\<close>. The whitespace of \<^verbatim>\<open>int\<close> is that of \<^verbatim>\<open>str.isspace\<close> without
  the four separators \<open>0x1C\<close> to \<open>0x1F\<close>. (The length limit of recent interpreters on
  the number of digits is not modelled.)
\<close>

definition is_int_space :: "char \<Rightarrow> bool" where
  "is_int_space c = (c \<in> set [CHR 0x09, CHR 0x0A, CHR 0x0B, CHR 0x0C, CHR 0x0D, CHR 0x20,
                               CHR 0x85, CHR 0xA0])"

definition digit_of :: "char \<Rightarrow> nat option" where
  "digit_of c = map_of [(CHR ''0'', 0), (CHR ''1'', 1), (CHR ''2'', 2), (CHR ''3'', 3),
                        (CHR ''4'', 4), (CHR ''5'', 5), (CHR ''6'', 6), (CHR ''7'', 7),
                        (CHR ''8'', 8), (CHR ''9'', 9)] c"

fun int_digits :: "bool \<Rightarrow> nat \<Rightarrow> string \<Rightarrow> nat option" where
  "int_digits after_digit acc [] = (if after_digit then Some acc else None)"
| "int_digits after_digit acc (c # cs) =
     (case digit_of c of
        Some d \<Rightarrow> int_digits True (10 * acc + d) cs
      | None \<Rightarrow> if c = CHR ''_'' \<and> after_digit then int_digits False acc cs else None)"

definition py_int :: "string \<Rightarrow> int option" where
  "py_int s =
     (case strip_chars is_int_space s of
        [] \<Rightarrow> None
      | c # cs \<Rightarrow>
          if c = CHR ''-'' then map_option (\<lambda>n. - int n) (int_digits False 0 cs)
          else if c = CHR ''+'' then map_option int (int_digits False 0 cs)
          else map_option int (int_digits False 0 (c # cs)))"

text \<open>\<^verbatim>\<open>str(n)\<close> for an integer.\<close>

fun str_nat :: "nat \<Rightarrow> string" where
  "str_nat n =
     (if n < 10 then [''0123456789'' ! n]
      else str_nat (n div 10) @ [''0123456789'' ! (n mod 10)])"

declare str_nat.simps [simp del]

definition str_int :: "int \<Rightarrow> string" where
  "str_int i = (if i < 0 then CHR ''-'' # str_nat (nat (- i)) else str_nat (nat i))"

text \<open>
  \<^verbatim>\<open>os.path.splitext\<close> of \<^verbatim>\<open>posixpath\<close>: \<^verbatim>\<open>p.rfind(ch)\<close> is the last index of \<open>ch\<close> or
  \<open>-1\<close>; the extension starts at the last dot, when that dot stands after the last
  slash and some character between the two is not a dot.
\<close>

definition py_rfind :: "char \<Rightarrow> string \<Rightarrow> int" where
  "py_rfind ch p =
     (if ch \<in> set p then int (length p) - 1 - int (length (takeWhile (\<lambda>x. x \<noteq> ch) (rev p)))
      else - 1)"

definition splitext :: "string \<Rightarrow> string \<times> string" where
  "splitext p =
     (let sepIndex = py_rfind CHR ''/'' p;
          dotIndex = py_rfind CHR ''.'' p
      in if dotIndex > sepIndex
            \<and> list_ex (\<lambda>c. c \<noteq> CHR ''.'') (py_slice p (Some (sepIndex + 1)) (Some dotIndex))
         then (py_slice p None (Some dotIndex), py_slice p (Some dotIndex) None)
         else (p, []))"

text \<open>
  A dictionary with string keys, in insertion order: \<^verbatim>\<open>d[k] = v\<close> replaces the value of a
  key that is there and appends a new key; \<^verbatim>\<open>d[k]\<close> raises KeyError for a missing key.
\<close>

type_synonym dict = "(string \<times> string) list"

fun dict_set :: "string \<Rightarrow> string \<Rightarrow> dict \<Rightarrow> dict" where
  "dict_set k v [] = [(k, v)]"
| "dict_set k v ((k', v') # d) = (if k' = k then (k, v) # d else (k', v') # dict_set k v d)"

definition dict_get :: "dict \<Rightarrow> string \<Rightarrow> py_error + string" where
  "dict_get d k = (case map_of d k of None \<Rightarrow> Inl KeyError | Some v \<Rightarrow> Inr v)"

definition dict_keys :: "dict \<Rightarrow> string list" where
  "dict_keys d = map fst d"

text \<open>
  For stating what a record holds: the value under a key, and the empty string for a
  key that is missing (the script never reads a missing key without raising).
\<close>

definition token_of :: "dict \<Rightarrow> string \<Rightarrow> string" where
  "token_of d k = (case map_of d k of None \<Rightarrow> [] | Some v \<Rightarrow> v)"

subsection \<open>Structure names\<close>

text \<open>
  Both parsers start with the same loop: every line that holds a marker gives a name,
  the text between the first and the second single quote with its extension removed.
\<close>

text \<open>
  \<^verbatim>\<open>protein_filename = line.split("'")[1]\<close> and
  \<^verbatim>\<open>protein, _ = os.path.splitext(protein_filename)\<close>, for each line with a marker, in
  the order of the lines.
\<close>

definition protein_of_line :: "string \<Rightarrow> py_error + string" where
  "protein_of_line line =
     (case py_index (py_split [quote] line) 1 of
        Inl e \<Rightarrow> Inl e
      | Inr protein_filename \<Rightarrow> Inr (fst (splitext protein_filename)))"

fun read_proteins :: "(string \<Rightarrow> bool) \<Rightarrow> string list \<Rightarrow> py_error + string list" where
  "read_proteins marker [] = Inr []"
| "read_proteins marker (line # rest) =
     (if marker line
      then (case protein_of_line line of
              Inl e \<Rightarrow> Inl e
            | Inr protein \<Rightarrow>
                (case read_proteins marker rest of
                   Inl e \<Rightarrow> Inl e
                 | Inr proteins \<Rightarrow> Inr (protein # proteins)))
      else read_proteins marker rest)"

definition pairwise_marker :: "string \<Rightarrow> bool" where
  "pairwise_marker line =
     (is_substr ''reading QUERY structure'' line \<or> is_substr ''reading TARGET structure'' line
      \<or> is_substr ''reading FIXED structure'' line \<or> is_substr ''reading MOVING structure'' line)"

definition multiway_marker :: "string \<Rightarrow> bool" where
  "multiway_marker line = is_substr ''... reading file'' line"

subsection \<open>The bounds of the alignment table\<close>

text \<open>
  The loop over \<^verbatim>\<open>enumerate(gesamt_lines)\<close> that both parsers run. While
  \<^verbatim>\<open>alignment_start_idx\<close> is falsy (\<^verbatim>\<open>None\<close>, or \<open>0\<close>) a header line sets it to its index
  plus two; afterwards the first line with a single quote sets \<^verbatim>\<open>alignment_end_idx\<close> and
  ends the loop. Either index can stay \<^verbatim>\<open>None\<close>.
\<close>

definition falsy :: "int option \<Rightarrow> bool" where
  "falsy v = (case v of None \<Rightarrow> True | Some k \<Rightarrow> k = 0)"

fun find_bounds ::
  "(string \<Rightarrow> bool) \<Rightarrow> int \<Rightarrow> int option \<Rightarrow> string list \<Rightarrow> int option \<times> int option" where
  "find_bounds header idx alignment_start_idx [] = (alignment_start_idx, None)"
| "find_bounds header idx alignment_start_idx (line # rest) =
     (if falsy alignment_start_idx
      then (if header line then find_bounds header (idx + 1) (Some (idx + 2)) rest
            else find_bounds header (idx + 1) alignment_start_idx rest)
      else (if quote \<in> set line then (alignment_start_idx, Some idx)
            else find_bounds header (idx + 1) alignment_start_idx rest))"

definition pairwise_header :: "string \<Rightarrow> bool" where
  "pairwise_header line =
     (let line_tokens = map py_strip (py_split ''|'' line)
      in (''Query'' \<in> set line_tokens \<or> ''FIXED'' \<in> set line_tokens)
         \<and> ''Dist.(A)'' \<in> set line_tokens
         \<and> (''Target'' \<in> set line_tokens \<or> ''MOVING'' \<in> set line_tokens))"

definition multiway_header :: "string \<Rightarrow> bool" where
  "multiway_header line = (''Disp.'' \<in> set (map py_strip (py_split ''|'' line)))"

definition alignment_lines_of :: "(string \<Rightarrow> bool) \<Rightarrow> string list \<Rightarrow> string list" where
  "alignment_lines_of header gesamt_lines =
     (case find_bounds header 0 None gesamt_lines of
        (alignment_start_idx, alignment_end_idx) \<Rightarrow>
          py_slice gesamt_lines alignment_start_idx alignment_end_idx)"

subsection \<open>The pairwise parser\<close>

text \<open>
  The fields of a line of the table, \<^verbatim>\<open>[line.split("|")[idx].strip() for idx in [1, 3]]\<close>,
  and the token of a field,
  \<^verbatim>\<open>token[-9:-4] + ":" + (str(int(token[-4:])).strip()) if len(token) > 0 else ""\<close>. The
  parser first takes the fields of every line, then the tokens of every field.
\<close>

definition pair_fields :: "string \<Rightarrow> py_error + string list" where
  "pair_fields line =
     map_res (\<lambda>idx. case py_index (py_split ''|'' line) idx of
                       Inl e \<Rightarrow> Inl e
                     | Inr field \<Rightarrow> Inr (py_strip field)) [1, 3]"

definition pair_token :: "string \<Rightarrow> py_error + string" where
  "pair_token token =
     (if length token > 0
      then (case py_int (py_slice token (Some (- 4)) None) of
              None \<Rightarrow> Inl ValueError
            | Some n \<Rightarrow>
                Inr (py_slice token (Some (- 9)) (Some (- 4)) @ '':'' @ py_strip (str_int n)))
      else Inr [])"

definition parse_two_queries :: "string list \<Rightarrow> py_error + string list list \<times> string list" where
  "parse_two_queries gesamt_lines =
     (case read_proteins pairwise_marker gesamt_lines of
        Inl e \<Rightarrow> Inl e
      | Inr proteins \<Rightarrow>
          (case map_res pair_fields (alignment_lines_of pairwise_header gesamt_lines) of
             Inl e \<Rightarrow> Inl e
           | Inr fields \<Rightarrow>
               (case map_res (map_res pair_token) fields of
                  Inl e \<Rightarrow> Inl e
                | Inr alignment_lines \<Rightarrow> Inr (alignment_lines, proteins))))"

subsection \<open>The multi-way parser\<close>

text \<open>
  The body of the loop over the lines of the table: \<^verbatim>\<open>line.replace("|*|", "| |")\<close>,
  \<^verbatim>\<open>[token.strip() for token in line.split("| |")]\<close>, \<^verbatim>\<open>line[1:]\<close>, then for every token
  \<^verbatim>\<open>token.split("|")[1] if "|" in token else token\<close>, then for every token
  \<^verbatim>\<open>token[:5] + ":" + str(int(token[5:])) if len(token) > 0 else token\<close>.
\<close>

definition strip_flag :: "string \<Rightarrow> py_error + string" where
  "strip_flag token =
     (if is_substr ''|'' token then py_index (py_split ''|'' token) 1 else Inr token)"

definition multi_token :: "string \<Rightarrow> py_error + string" where
  "multi_token token =
     (if length token > 0
      then (case py_int (py_slice token (Some 5) None) of
              None \<Rightarrow> Inl ValueError
            | Some n \<Rightarrow> Inr (py_slice token None (Some 5) @ '':'' @ str_int n))
      else Inr token)"

definition multi_fields :: "string \<Rightarrow> string list" where
  "multi_fields line =
     py_slice (map py_strip (py_split ''| |'' (py_replace ''|*|'' ''| |'' line))) (Some 1) None"

definition reformat_line :: "string \<Rightarrow> py_error + string list" where
  "reformat_line line =
     (case map_res strip_flag (multi_fields line) of
        Inl e \<Rightarrow> Inl e
      | Inr tokens \<Rightarrow> map_res multi_token tokens)"

definition parse_more_than_two_queries ::
  "string list \<Rightarrow> py_error + string list list \<times> string list" where
  "parse_more_than_two_queries gesamt_lines =
     (case read_proteins multiway_marker gesamt_lines of
        Inl e \<Rightarrow> Inl e
      | Inr proteins \<Rightarrow>
          (case map_res reformat_line (alignment_lines_of multiway_header gesamt_lines) of
             Inl e \<Rightarrow> Inl e
           | Inr reformatted_alignment_lines \<Rightarrow> Inr (reformatted_alignment_lines, proteins)))"

subsection \<open>Label records\<close>

text \<open>
  \<^verbatim>\<open>{proteins[idx]: residue for idx, residue in enumerate(line)}\<close>: a row longer than the
  list of names raises IndexError; a name that comes twice keeps its first place and its
  last residue.
\<close>

fun build_record :: "string list \<Rightarrow> nat \<Rightarrow> string list \<Rightarrow> dict \<Rightarrow> py_error + dict" where
  "build_record proteins idx [] d = Inr d"
| "build_record proteins idx (residue # rest) d =
     (case py_index proteins idx of
        Inl e \<Rightarrow> Inl e
      | Inr protein \<Rightarrow> build_record proteins (idx + 1) rest (dict_set protein residue d))"

text \<open>
  \<^verbatim>\<open>line["generic_resname"] = "-".join([... for protein in line])\<close>: the loop runs over
  the keys of the record itself, and the join is stored in the same dictionary.
\<close>

definition generic_part :: "dict \<Rightarrow> string \<Rightarrow> py_error + string" where
  "generic_part line protein =
     (case dict_get line protein of
        Inl e \<Rightarrow> Inl e
      | Inr residue \<Rightarrow> Inr (if length residue > 0 then residue else ''None''))"

definition add_generic_resname :: "dict \<Rightarrow> py_error + dict" where
  "add_generic_resname line =
     (case map_res (generic_part line) (dict_keys line) of
        Inl e \<Rightarrow> Inl e
      | Inr parts \<Rightarrow> Inr (dict_set ''generic_resname'' (py_join ''-'' parts) line))"

definition label_records :: "string list \<Rightarrow> string list list \<Rightarrow> py_error + dict list" where
  "label_records proteins alignment_lines =
     (case map_res (\<lambda>line. build_record proteins 0 line []) alignment_lines of
        Inl e \<Rightarrow> Inl e
      | Inr records \<Rightarrow> map_res add_generic_resname records)"

subsection \<open>Label files\<close>

text \<open>
  The files are a map from file to content. Which file a path names is decided by the
  operating system, not by the text of the path: \<open>file_of path\<close> is the file that
  \<^verbatim>\<open>open(path, "w+")\<close> opens, and \<open>None\<close> when the system refuses (the directory is missing,
  say). Two paths can name one file, as \<^verbatim>\<open>out/a.label\<close> and \<^verbatim>\<open>out/./a.label\<close> do. \<^verbatim>\<open>open\<close>
  raises ValueError for a path with a NUL character before it asks the system, OSError
  when the system refuses, and empties the file otherwise; the file keeps what was
  written when a later statement raises.
\<close>

type_synonym 'f files = "'f \<Rightarrow> string option"

definition py_open :: "(string \<Rightarrow> 'f option) \<Rightarrow> string \<Rightarrow> py_error + 'f" where
  "py_open file_of path =
     (if CHR 0x00 \<in> set path then Inl ValueError
      else (case file_of path of None \<Rightarrow> Inl OSError | Some f \<Rightarrow> Inr f))"

definition label_path :: "string \<Rightarrow> string \<Rightarrow> string" where
  "label_path output_path protein = output_path @ ''/'' @ protein @ ''.label''"

definition label_line :: "string \<Rightarrow> string \<Rightarrow> string" where
  "label_line residue generic = residue @ [tab] @ generic @ [tab, newline]"

text \<open>
  The loop over the records inside \<^verbatim>\<open>with open(...) as w_open\<close>: a record whose residue for
  the protein is empty is skipped, and for every other record
  \<^verbatim>\<open>"{}\t{}\t\n".format(line[protein], line["generic_resname"])\<close> is written. \<open>write_lines\<close>
  returns what has been written, also when a lookup raises.
\<close>

fun write_lines :: "dict list \<Rightarrow> string \<Rightarrow> string \<Rightarrow> py_error option \<times> string" where
  "write_lines [] protein written = (None, written)"
| "write_lines (line # rest) protein written =
     (case dict_get line protein of
        Inl e \<Rightarrow> (Some e, written)
      | Inr residue \<Rightarrow>
          if length residue = 0 then write_lines rest protein written
          else (case dict_get line ''generic_resname'' of
                  Inl e \<Rightarrow> (Some e, written)
                | Inr generic \<Rightarrow>
                    write_lines rest protein (written @ label_line residue generic)))"

text \<open>
  The loop \<^verbatim>\<open>for protein in proteins\<close>: the file of
  \<^verbatim>\<open>"{}/{}.label".format(output_path, protein)\<close> is opened, emptied, and written.
\<close>

fun write_files ::
  "(string \<Rightarrow> 'f option) \<Rightarrow> string \<Rightarrow> dict list \<Rightarrow> string list \<Rightarrow> 'f files
   \<Rightarrow> py_error option \<times> 'f files" where
  "write_files file_of output_path records [] fs = (None, fs)"
| "write_files file_of output_path records (protein # rest) fs =
     (case py_open file_of (label_path output_path protein) of
        Inl e \<Rightarrow> (Some e, fs)
      | Inr f \<Rightarrow>
          (case write_lines records protein [] of
             (Some e, written) \<Rightarrow> (Some e, fs(f \<mapsto> written))
           | (None, written) \<Rightarrow>
               write_files file_of output_path records rest (fs(f \<mapsto> written))))"

subsection \<open>The run\<close>

text \<open>
  \<open>main\<close> is given what \<^verbatim>\<open>readlines()\<close> returned for the input file, the output path, the
  \<^verbatim>\<open>--proteins\<close> list when there is one, the naming of files by paths, and the files before
  the run. It returns the exception that ended the run, if any, and the files after it.
\<close>

definition read_gesamt_lines :: "string list \<Rightarrow> string list" where
  "read_gesamt_lines raw = map py_strip (filter (\<lambda>line. length (py_strip line) > 0) raw)"

definition pairwise_format :: "string list \<Rightarrow> bool" where
  "pairwise_format gesamt_lines =
     (is_substr ''reading QUERY structure'' (concat gesamt_lines)
      \<or> is_substr ''reading FIXED structure'' (concat gesamt_lines))"

definition parse_gesamt :: "string list \<Rightarrow> py_error + string list list \<times> string list" where
  "parse_gesamt gesamt_lines =
     (if pairwise_format gesamt_lines then parse_two_queries gesamt_lines
      else parse_more_than_two_queries gesamt_lines)"

definition chosen_proteins :: "string list option \<Rightarrow> string list \<Rightarrow> string list" where
  "chosen_proteins input_proteins proteins =
     (case input_proteins of Some given \<Rightarrow> given | None \<Rightarrow> proteins)"

definition main ::
  "string list \<Rightarrow> string \<Rightarrow> string list option \<Rightarrow> (string \<Rightarrow> 'f option) \<Rightarrow> 'f files
   \<Rightarrow> py_error option \<times> 'f files" where
  "main raw output_path input_proteins file_of fs =
     (case parse_gesamt (read_gesamt_lines raw) of
        Inl e \<Rightarrow> (Some e, fs)
      | Inr (alignment_lines, parsed) \<Rightarrow>
          (case label_records (chosen_proteins input_proteins parsed) alignment_lines of
             Inl e \<Rightarrow> (Some e, fs)
           | Inr records \<Rightarrow>
               write_files file_of output_path records
                 (chosen_proteins input_proteins parsed) fs))"

subsection \<open>Reports used as examples\<close>

text \<open>
  A pairwise report for two quoted paths, with one aligned pair and one row where the
  first structure has a gap; and a report of three structures, whose first row has a gap
  in the last column and whose second row carries flags.
\<close>

definition pairwise_report :: "string \<Rightarrow> string \<Rightarrow> string list" where
  "pairwise_report query target =
     [''... reading QUERY structure from file '' @ [quote] @ query @ [quote],
      ''   '',
      ''... reading TARGET structure from file '' @ [quote] @ target @ [quote],
      ''|    Query    |  Dist.(A)  |   Target    |'',
      ''|-------------+------------+-------------|'',
      ''|H- A:LEU  75 | <**0.82**> |H- A:LEU  65 |'',
      ''|             |            |H- A:LEU  66 |'',
      '' '-------------'------------'-------------' '']"

definition multiway_report :: "string list" where
  "multiway_report =
     ['' ... reading file 's1.pdb', 1 chain '',
      '' ... reading file 's2.pdb', 1 chain '',
      '' ... reading file 's3.pdb', 1 chain '',
      ''  Disp. | | s1         | | s2         | | s3'',
      '' -------+-+------------+-+------------+-+-----------'',
      ''6.034 | |  A:CYS 341 | |  A:MET 456 | |'',
      ''0.512 |*|H|A:ASN 103 |*|  A:MET 457 |*|  D:LEU 559'',
      '' '------'------------'------------'------------ '']"

text \<open>
  A naming of files in which every path is a file of its own, except that
  \<^verbatim>\<open>out/./a.label\<close> is the file \<^verbatim>\<open>out/a.label\<close>, as it is on disk.
\<close>

definition one_directory :: "string \<Rightarrow> string option" where
  "one_directory path = Some (if path = ''out/./a.label'' then ''out/a.label'' else path)"

section \<open>Properties\<close>

subsection \<open>Facts about the Python operations\<close>

lemma map_res_Cons_Inr:
  "map_res f (x # xs) = Inr zs \<longleftrightarrow> (\<exists>y ys. zs = y # ys \<and> f x = Inr y \<and> map_res f xs = Inr ys)"
  by (auto split: sum.splits)

lemma map_res_Inr_iff:
  "map_res f xs = Inr ys \<longleftrightarrow> list_all2 (\<lambda>x y. f x = Inr y) xs ys"
proof (induction xs arbitrary: ys)
  case Nil
  then show ?case by auto
next
  case (Cons x xs)
  show ?case
    unfolding map_res_Cons_Inr list_all2_Cons1 Cons.IH by blast
qed

lemma map_res_total:
  "(\<And>x. x \<in> set xs \<Longrightarrow> f x = Inr (g x)) \<Longrightarrow> map_res f xs = Inr (map g xs)"
  by (induction xs) auto

lemma map_res_error:
  assumes "\<And>y e. y \<in> set xs \<Longrightarrow> f y = Inl e \<Longrightarrow> e = err"
    and "x \<in> set xs" and "f x = Inl e'"
  shows "map_res f xs = Inl err"
  using assms
proof (induction xs)
  case Nil
  then show ?case by simp
next
  case (Cons a xs)
  show ?case
  proof (cases "f a")
    case (Inl e)
    with Cons.prems(1)[of a e] show ?thesis by simp
  next
    case (Inr y)
    with Cons.prems have "x \<in> set xs" by auto
    with Cons.IH Cons.prems have "map_res f xs = Inl err" by auto
    with Inr show ?thesis by simp
  qed
qed

lemma is_substr_iff: "is_substr sub s \<longleftrightarrow> (\<exists>pre post. s = pre @ sub @ post)"
proof (induction s)
  case Nil
  then show ?case by auto
next
  case (Cons c cs)
  show ?case
  proof
    assume "is_substr sub (c # cs)"
    then consider "prefix sub (c # cs)" | "is_substr sub cs" by auto
    then show "\<exists>pre post. c # cs = pre @ sub @ post"
    proof cases
      case 1
      then obtain post where "c # cs = sub @ post" by (auto simp: prefix_def)
      then have "c # cs = [] @ sub @ post" by simp
      then show ?thesis by blast
    next
      case 2
      with Cons obtain pre post where "cs = pre @ sub @ post" by blast
      then have "c # cs = (c # pre) @ sub @ post" by simp
      then show ?thesis by blast
    qed
  next
    assume "\<exists>pre post. c # cs = pre @ sub @ post"
    then obtain pre post where eq: "c # cs = pre @ sub @ post" by blast
    show "is_substr sub (c # cs)"
    proof (cases pre)
      case Nil
      with eq have "prefix sub (c # cs)" by (simp add: prefix_def)
      then show ?thesis by simp
    next
      case (Cons a pre')
      with eq have "cs = pre' @ sub @ post" by simp
      with Cons.IH have "is_substr sub cs" by blast
      then show ?thesis by simp
    qed
  qed
qed

lemma is_substr_single: "is_substr [ch] s \<longleftrightarrow> ch \<in> set s"
  by (induction s) auto

lemma py_split_no_sep: "ch \<notin> set s \<Longrightarrow> py_split [ch] s = [s]"
  by (induction s) auto

lemma py_split_char:
  "ch \<in> set s \<Longrightarrow>
   py_split [ch] s = takeWhile (\<lambda>c. c \<noteq> ch) s # py_split [ch] (tl (dropWhile (\<lambda>c. c \<noteq> ch) s))"
  by (induction s) (auto simp: py_split_no_sep split: list.splits)

lemma py_split_nonempty: "py_split sep s \<noteq> []"
  by (induction sep s rule: py_split.induct) (auto split: list.splits)

lemma strip_chars_id: "(\<And>c. c \<in> set s \<Longrightarrow> \<not> cls c) \<Longrightarrow> strip_chars cls s = s"
proof -
  assume h: "\<And>c. c \<in> set s \<Longrightarrow> \<not> cls c"
  have a: "dropWhile cls s = s"
    using h by (cases s) auto
  have b: "dropWhile cls (rev s) = rev s"
    using h by (cases "rev s") (auto simp: rev_eq_Cons_iff)
  show ?thesis by (simp add: strip_chars_def a b)
qed

lemma digit_char_no_space: "d < 10 \<Longrightarrow> \<not> is_space (''0123456789'' ! d)"
proof -
  assume "d < 10"
  then have "d \<in> {0, 1, 2, 3, 4, 5, 6, 7, 8, 9}" by auto
  then show ?thesis by (auto simp: is_space_def)
qed

lemma str_nat_no_space: "c \<in> set (str_nat n) \<Longrightarrow> \<not> is_space c"
proof (induction n arbitrary: c rule: str_nat.induct)
  case (1 n)
  show ?case
  proof (cases "n < 10")
    case True
    with "1.prems" have "c = ''0123456789'' ! n" by (simp add: str_nat.simps[of n])
    with True show ?thesis using digit_char_no_space by blast
  next
    case False
    with "1.prems" consider "c \<in> set (str_nat (n div 10))" | "c = ''0123456789'' ! (n mod 10)"
      by (auto simp: str_nat.simps[of n])
    then show ?thesis
    proof cases
      case 1
      with "1.IH" False show ?thesis by blast
    next
      case 2
      have "n mod 10 < 10" by simp
      with 2 show ?thesis using digit_char_no_space by blast
    qed
  qed
qed

lemma str_int_no_space: "c \<in> set (str_int i) \<Longrightarrow> \<not> is_space c"
  by (auto simp: str_int_def is_space_def dest: str_nat_no_space split: if_splits)

lemma py_strip_str_int: "py_strip (str_int i) = str_int i"
  unfolding py_strip_def by (rule strip_chars_id) (rule str_int_no_space)

lemma py_slice_last: "0 < k \<Longrightarrow> py_slice xs (Some (- int k)) None = drop (length xs - k) xs"
  by (auto simp: py_slice_def slice_bound_def Let_def nat_diff_distrib')

lemma py_slice_mid:
  "0 < j \<Longrightarrow> 0 < k \<Longrightarrow> py_slice xs (Some (- int k)) (Some (- int j)) = drop (length xs - k) (take (length xs - j) xs)"
  by (auto simp: py_slice_def slice_bound_def Let_def drop_take nat_diff_distrib')

lemma py_slice_all: "py_slice xs None None = xs"
  by (simp add: py_slice_def slice_bound_def)

lemma py_slice_from: "py_slice xs (Some (int k)) None = drop k xs"
  by (auto simp: py_slice_def slice_bound_def Let_def min_def)

lemma py_slice_upto: "py_slice xs None (Some (int k)) = take k xs"
  by (auto simp: py_slice_def slice_bound_def Let_def min_def)

lemma py_split_hd: "hd (py_split [ch] s) = takeWhile (\<lambda>c. c \<noteq> ch) s"
  by (induction s) (auto split: list.splits simp: py_split_nonempty)

lemma strip_flag_eq:
  "strip_flag token =
     Inr (if CHR ''|'' \<in> set token
          then takeWhile (\<lambda>c. c \<noteq> CHR ''|'') (tl (dropWhile (\<lambda>c. c \<noteq> CHR ''|'') token))
          else token)"
proof (cases "CHR ''|'' \<in> set token")
  case True
  let ?rest = "tl (dropWhile (\<lambda>c. c \<noteq> CHR ''|'') token)"
  obtain p ps where ps: "py_split ''|'' ?rest = p # ps"
    using py_split_nonempty[of "''|''" ?rest] by (cases "py_split ''|'' ?rest") auto
  then have "p = takeWhile (\<lambda>c. c \<noteq> CHR ''|'') ?rest"
    using py_split_hd[of "CHR ''|''" ?rest] by simp
  with True ps show ?thesis
    by (simp add: strip_flag_def is_substr_single py_split_char py_index_def)
next
  case False
  then show ?thesis by (simp add: strip_flag_def is_substr_single)
qed

subsection \<open>Facts about dictionaries and label records\<close>

lemma map_of_dict_set: "map_of (dict_set k v d) = (map_of d)(k \<mapsto> v)"
  by (induction d) auto

lemma dict_set_keys: "fst ` set (dict_set k v d) = insert k (fst ` set d)"
proof -
  have "fst ` set (dict_set k v d) = dom (map_of (dict_set k v d))"
    by (simp only: dom_map_of_conv_image_fst)
  also have "\<dots> = insert k (dom (map_of d))"
    by (simp add: map_of_dict_set)
  also have "\<dots> = insert k (fst ` set d)"
    by (simp only: dom_map_of_conv_image_fst)
  finally show ?thesis .
qed

lemma dict_set_new: "k \<notin> fst ` set d \<Longrightarrow> dict_set k v d = d @ [(k, v)]"
  by (induction d) auto

lemma dict_get_set: "dict_get (dict_set k v d) k' = (if k' = k then Inr v else dict_get d k')"
  by (simp add: dict_get_def map_of_dict_set)

lemma dict_get_Inr_iff: "dict_get d k = Inr v \<longleftrightarrow> map_of d k = Some v"
  by (simp add: dict_get_def split: option.splits)

lemma dict_get_key: "dict_get d k = Inr v \<Longrightarrow> k \<in> fst ` set d"
  by (auto simp: dict_get_def split: option.splits dest: map_of_SomeD intro: rev_image_eqI)

lemma dict_get_error: "dict_get d k = Inl e \<longleftrightarrow> e = KeyError \<and> k \<notin> fst ` set d"
proof (cases "map_of d k")
  case None
  then have "k \<notin> fst ` set d" by (simp add: map_of_eq_None_iff)
  with None show ?thesis by (auto simp: dict_get_def)
next
  case (Some v)
  then have "k \<in> fst ` set d" by (metis map_of_eq_None_iff option.distinct(1))
  with Some show ?thesis by (simp add: dict_get_def)
qed

lemma build_record_keys:
  "build_record proteins idx rest d = Inr d'
   \<Longrightarrow> fst ` set d' = fst ` set d \<union> set (take (length rest) (drop idx proteins))
       \<and> (rest \<noteq> [] \<longrightarrow> idx + length rest \<le> length proteins)"
proof (induction rest arbitrary: idx d)
  case Nil
  then show ?case by simp
next
  case (Cons residue rest)
  from Cons.prems have idx: "idx < length proteins"
    by (auto simp: py_index_def split: if_splits)
  with Cons.prems have rec: "build_record proteins (idx + 1) rest (dict_set (proteins ! idx) residue d) = Inr d'"
    by (simp add: py_index_def)
  from Cons.IH[OF rec] have
    keys: "fst ` set d' = fst ` set (dict_set (proteins ! idx) residue d)
             \<union> set (take (length rest) (drop (idx + 1) proteins))"
    and len: "rest \<noteq> [] \<longrightarrow> idx + 1 + length rest \<le> length proteins" by auto
  have "drop idx proteins = proteins ! idx # drop (idx + 1) proteins"
    using idx by (simp add: Cons_nth_drop_Suc)
  then have "set (take (length (residue # rest)) (drop idx proteins))
      = insert (proteins ! idx) (set (take (length rest) (drop (idx + 1) proteins)))"
    by simp
  with keys have "fst ` set d' = fst ` set d \<union> set (take (length (residue # rest)) (drop idx proteins))"
    by (auto simp: dict_set_keys)
  moreover have "idx + length (residue # rest) \<le> length proteins"
    using idx len by (cases rest) auto
  ultimately show ?case by blast
qed

lemma build_record_distinct:
  assumes "distinct proteins"
  shows "idx + length rest \<le> length proteins \<Longrightarrow> length done = idx
    \<Longrightarrow> build_record proteins idx rest (zip (take idx proteins) done)
        = Inr (zip (take (idx + length rest) proteins) (done @ rest))"
proof (induction rest arbitrary: idx "done")
  case Nil
  then show ?case by simp
next
  case (Cons residue rest)
  then have idx: "idx < length proteins" by simp
  have new: "proteins ! idx \<notin> fst ` set (zip (take idx proteins) done)"
  proof
    assume "proteins ! idx \<in> fst ` set (zip (take idx proteins) done)"
    then have "proteins ! idx \<in> set (take idx proteins)"
      by (auto dest: set_zip_leftD)
    then obtain j where "j < idx" "proteins ! j = proteins ! idx"
      using idx by (auto simp: in_set_conv_nth)
    with assms idx show False by (auto simp: nth_eq_iff_index_eq)
  qed
  have step: "dict_set (proteins ! idx) residue (zip (take idx proteins) done)
      = zip (take (idx + 1) proteins) (done @ [residue])"
    using idx Cons.prems(2) by (simp add: dict_set_new[OF new] take_Suc_conv_app_nth)
  have "build_record proteins (idx + 1) rest (zip (take (idx + 1) proteins) (done @ [residue]))
      = Inr (zip (take (idx + 1 + length rest) proteins) ((done @ [residue]) @ rest))"
    using Cons.prems by (intro Cons.IH) auto
  with idx step show ?case by (simp add: py_index_def)
qed

lemma build_record_zip:
  "distinct proteins \<Longrightarrow> length line = length proteins
   \<Longrightarrow> build_record proteins 0 line [] = Inr (zip proteins line)"
  using build_record_distinct[of proteins 0 line "[]"] by simp

lemma generic_part_key:
  "protein \<in> fst ` set line
   \<Longrightarrow> generic_part line protein =
       Inr (if the (map_of line protein) = [] then ''None'' else the (map_of line protein))"
proof -
  assume "protein \<in> fst ` set line"
  then obtain v where "map_of line protein = Some v"
    by (metis map_of_eq_None_iff not_Some_eq)
  then show ?thesis by (simp add: generic_part_def dict_get_def)
qed

lemma add_generic_resname_eq:
  "add_generic_resname line =
     Inr (dict_set ''generic_resname''
            (py_join ''-'' (map (\<lambda>protein. if the (map_of line protein) = [] then ''None''
                                           else the (map_of line protein)) (dict_keys line)))
            line)"
proof -
  have "map_res (generic_part line) (dict_keys line)
      = Inr (map (\<lambda>protein. if the (map_of line protein) = [] then ''None''
                              else the (map_of line protein)) (dict_keys line))"
    by (rule map_res_total) (simp add: dict_keys_def generic_part_key)
  then show ?thesis by (simp add: add_generic_resname_def)
qed

lemma map_of_zip_distinct:
  "distinct ks \<Longrightarrow> length vs = length ks
   \<Longrightarrow> map (\<lambda>k. f (the (map_of (zip ks vs) k))) ks = map f vs"
proof (induction ks arbitrary: vs)
  case Nil
  then show ?case by simp
next
  case (Cons k ks)
  then obtain v vs' where vs: "vs = v # vs'" by (cases vs) auto
  with Cons.prems have d: "distinct ks" "k \<notin> set ks" "length vs' = length ks" by auto
  have "map (\<lambda>x. f (the (map_of (zip (k # ks) (v # vs')) x))) ks
      = map (\<lambda>x. f (the (map_of (zip ks vs') x))) ks"
    using d(2) by (intro map_cong) auto
  with Cons.IH[OF d(1) d(3)] vs show ?case by simp
qed

lemma add_generic_resname_zip:
  assumes "distinct proteins" and "length line = length proteins"
  shows "add_generic_resname (zip proteins line) =
     Inr (dict_set ''generic_resname''
            (py_join ''-'' (map (\<lambda>residue. if residue = [] then ''None'' else residue) line))
            (zip proteins line))"
proof -
  have "dict_keys (zip proteins line) = proteins"
    using assms by (simp add: dict_keys_def)
  moreover have "map (\<lambda>protein. (\<lambda>residue. if residue = [] then ''None'' else residue)
                     (the (map_of (zip proteins line) protein))) proteins
      = map (\<lambda>residue. if residue = [] then ''None'' else residue) line"
    using assms by (rule map_of_zip_distinct)
  ultimately show ?thesis by (simp add: add_generic_resname_eq)
qed

lemma map_res_map: "map_res f (map h xs) = map_res (\<lambda>x. f (h x)) xs"
  by (induction xs) (simp_all split: sum.splits)

lemma label_records_distinct:
  assumes "distinct proteins" and "\<And>line. line \<in> set alignment_lines \<Longrightarrow> length line = length proteins"
  shows "label_records proteins alignment_lines =
     Inr (map (\<lambda>line. dict_set ''generic_resname''
                 (py_join ''-'' (map (\<lambda>residue. if residue = [] then ''None'' else residue) line))
                 (zip proteins line)) alignment_lines)"
proof -
  have a: "map_res (\<lambda>line. build_record proteins 0 line []) alignment_lines
      = Inr (map (zip proteins) alignment_lines)"
    by (rule map_res_total) (simp add: assms build_record_zip)
  have b: "map_res (\<lambda>line. add_generic_resname (zip proteins line)) alignment_lines
      = Inr (map (\<lambda>line. dict_set ''generic_resname''
                 (py_join ''-'' (map (\<lambda>residue. if residue = [] then ''None'' else residue) line))
                 (zip proteins line)) alignment_lines)"
    by (rule map_res_total) (simp add: assms add_generic_resname_zip)
  show ?thesis by (simp add: label_records_def a map_res_map b)
qed

lemma dict_get_zip:
  assumes "distinct proteins" and "length line = length proteins" and "k < length proteins"
  shows "dict_get (zip proteins line) (proteins ! k) = Inr (line ! k)"
proof -
  have "map_of (zip proteins line) (proteins ! k) = Some (line ! k)"
    using assms by (simp add: map_of_zip_nth)
  then show ?thesis by (simp add: dict_get_def)
qed

subsection \<open>Facts about the label files\<close>

lemma label_path_inj: "label_path output_path a = label_path output_path b \<longleftrightarrow> a = b"
  by (simp add: label_path_def)

lemma py_open_Inr:
  "py_open file_of path = Inr f \<longleftrightarrow> CHR 0x00 \<notin> set path \<and> file_of path = Some f"
  by (auto simp: py_open_def split: option.splits)

lemma token_of_get: "dict_get line k = Inr v \<Longrightarrow> token_of line k = v"
  by (simp add: dict_get_def token_of_def split: option.splits)

lemma write_lines_None:
  "write_lines records protein written = (None, out)
   \<Longrightarrow> out = written @ concat [label_line (token_of line protein) (token_of line ''generic_resname'').
                                 line \<leftarrow> records, token_of line protein \<noteq> []]
       \<and> (\<forall>line \<in> set records. protein \<in> fst ` set line)"
proof (induction records arbitrary: written)
  case Nil
  then show ?case by simp
next
  case (Cons line rest)
  from Cons.prems obtain residue where r: "dict_get line protein = Inr residue"
    by (cases "dict_get line protein") auto
  note t = token_of_get[OF r] dict_get_key[OF r]
  show ?case
  proof (cases "residue = []")
    case True
    with Cons.prems r have "write_lines rest protein written = (None, out)" by simp
    from Cons.IH[OF this] t True show ?thesis by simp
  next
    case False
    with Cons.prems r obtain generic where g: "dict_get line ''generic_resname'' = Inr generic"
      by (cases "dict_get line ''generic_resname''") auto
    with Cons.prems r False
    have "write_lines rest protein (written @ label_line residue generic) = (None, out)" by simp
    from Cons.IH[OF this] t False token_of_get[OF g] show ?thesis by simp
  qed
qed

lemma write_files_Cons_None:
  "write_files file_of output_path records (protein # rest) fs = (None, fs')
   \<longleftrightarrow> (\<exists>f. py_open file_of (label_path output_path protein) = Inr f
         \<and> fst (write_lines records protein []) = None
         \<and> write_files file_of output_path records rest
              (fs(f \<mapsto> snd (write_lines records protein []))) = (None, fs'))"
  by (cases "write_lines records protein []")
     (auto split: sum.splits option.splits)

lemma write_files_frame:
  "(\<And>S. S \<in> set proteins \<Longrightarrow> py_open file_of (label_path output_path S) \<noteq> Inr f)
   \<Longrightarrow> snd (write_files file_of output_path records proteins fs) f = fs f"
proof (induction proteins arbitrary: fs)
  case Nil
  then show ?case by simp
next
  case (Cons protein rest)
  show ?case
  proof (cases "py_open file_of (label_path output_path protein)")
    case (Inl e)
    then show ?thesis by simp
  next
    case (Inr g)
    with Cons.prems[of protein] have ne: "g \<noteq> f" by auto
    obtain e w where wl: "write_lines records protein [] = (e, w)"
      by (cases "write_lines records protein []")
    show ?thesis
    proof (cases e)
      case (Some err)
      with Inr wl ne show ?thesis by simp
    next
      case None
      have "snd (write_files file_of output_path records rest (fs(g \<mapsto> w))) f = (fs(g \<mapsto> w)) f"
        by (rule Cons.IH) (simp add: Cons.prems)
      with Inr wl None ne show ?thesis by simp
    qed
  qed
qed

lemma write_files_None:
  "write_files file_of output_path records proteins fs = (None, fs') \<Longrightarrow> S \<in> set proteins
   \<Longrightarrow> fst (write_lines records S []) = None
       \<and> (\<exists>f. py_open file_of (label_path output_path S) = Inr f)"
proof (induction proteins arbitrary: fs)
  case Nil
  then show ?case by simp
next
  case (Cons protein rest)
  from Cons.prems(1) obtain f where
    f: "py_open file_of (label_path output_path protein) = Inr f"
    and ok: "fst (write_lines records protein []) = None"
    and rec: "write_files file_of output_path records rest
              (fs(f \<mapsto> snd (write_lines records protein []))) = (None, fs')"
    unfolding write_files_Cons_None by blast
  show ?case
  proof (cases "S \<in> set rest")
    case True
    from Cons.IH[OF rec True] show ?thesis .
  next
    case False
    with Cons.prems(2) have "S = protein" by simp
    with f ok show ?thesis by blast
  qed
qed

lemma write_files_written:
  "write_files file_of output_path records proteins fs = (None, fs')
   \<Longrightarrow> fs f \<noteq> None \<or> (\<exists>S \<in> set proteins. py_open file_of (label_path output_path S) = Inr f)
   \<Longrightarrow> fs' f \<noteq> None"
proof (induction proteins arbitrary: fs)
  case Nil
  then show ?case by simp
next
  case (Cons protein rest)
  from Cons.prems(1) obtain g where
    g: "py_open file_of (label_path output_path protein) = Inr g"
    and rec: "write_files file_of output_path records rest
              (fs(g \<mapsto> snd (write_lines records protein []))) = (None, fs')"
    unfolding write_files_Cons_None by blast
  have "(fs(g \<mapsto> snd (write_lines records protein []))) f \<noteq> None
      \<or> (\<exists>S \<in> set rest. py_open file_of (label_path output_path S) = Inr f)"
    using Cons.prems(2) g by (cases "f = g") auto
  from Cons.IH[OF rec this] show ?case .
qed

lemma write_files_unwritten:
  assumes "write_files file_of output_path records proteins fs = (None, fs')"
    and "\<And>S. S \<in> set proteins \<Longrightarrow> py_open file_of (label_path output_path S) \<noteq> Inr f"
  shows "fs' f = fs f"
  using write_files_frame[of proteins file_of output_path f records fs] assms by simp

lemma write_files_step:
  assumes "py_open file_of (label_path output_path x) = Inr f"
    and "fst (write_lines records x []) = None"
  shows "write_files file_of output_path records (x # zs) fs
      = write_files file_of output_path records zs (fs(f \<mapsto> snd (write_lines records x [])))"
  using assms by (cases "write_lines records x []") simp

lemma write_files_append:
  "write_files file_of output_path records (xs @ ys) fs
   = (case write_files file_of output_path records xs fs of
        (None, fs1) \<Rightarrow> write_files file_of output_path records ys fs1
      | (Some e, fs1) \<Rightarrow> (Some e, fs1))"
proof (induction xs arbitrary: fs)
  case Nil
  then show ?case by simp
next
  case (Cons x xs)
  show ?case
  proof (cases "py_open file_of (label_path output_path x)")
    case (Inl e)
    then show ?thesis by simp
  next
    case (Inr f)
    show ?thesis
    proof (cases "fst (write_lines records x [])")
      case (Some err)
      with Inr show ?thesis by (cases "write_lines records x []") simp
    next
      case None
      have a: "write_files file_of output_path records ((x # xs) @ ys) fs
          = write_files file_of output_path records (xs @ ys) (fs(f \<mapsto> snd (write_lines records x [])))"
        using write_files_step[OF Inr None, of "xs @ ys" fs] by simp
      have b: "write_files file_of output_path records (x # xs) fs
          = write_files file_of output_path records xs (fs(f \<mapsto> snd (write_lines records x [])))"
        by (rule write_files_step[OF Inr None])
      show ?thesis unfolding a b by (rule Cons.IH)
    qed
  qed
qed

lemma write_files_split:
  assumes "write_files file_of output_path records (before @ S # after) fs = (None, fs')"
  shows "\<exists>f. py_open file_of (label_path output_path S) = Inr f
      \<and> fst (write_lines records S []) = None
      \<and> fst (write_files file_of output_path records (before @ [S]) fs) = None
      \<and> snd (write_files file_of output_path records (before @ [S]) fs) f
          = Some (snd (write_lines records S []))
      \<and> write_files file_of output_path records after
           (snd (write_files file_of output_path records (before @ [S]) fs)) = (None, fs')"
proof -
  obtain e0 fs0 where b: "write_files file_of output_path records before fs = (e0, fs0)"
    by (cases "write_files file_of output_path records before fs")
  from assms b have e0: "e0 = None"
    by (cases e0) (simp_all add: write_files_append)
  with assms b have rest: "write_files file_of output_path records (S # after) fs0 = (None, fs')"
    by (simp add: write_files_append)
  then obtain f where f: "py_open file_of (label_path output_path S) = Inr f"
    and ok: "fst (write_lines records S []) = None"
    and after: "write_files file_of output_path records after
              (fs0(f \<mapsto> snd (write_lines records S []))) = (None, fs')"
    unfolding write_files_Cons_None by blast
  from ok have wl: "write_lines records S [] = (None, snd (write_lines records S []))"
    by (cases "write_lines records S []") auto
  have "write_files file_of output_path records [S] fs0
      = write_files file_of output_path records [] (fs0(f \<mapsto> snd (write_lines records S [])))"
    by (rule write_files_step[OF f ok])
  then have one: "write_files file_of output_path records (before @ [S]) fs
      = (None, fs0(f \<mapsto> snd (write_lines records S [])))"
    using b e0 by (simp add: write_files_append del: fun_upd_apply)
  have "snd (write_files file_of output_path records (before @ [S]) fs) f
      = Some (snd (write_lines records S []))"
    unfolding one by simp
  moreover have "fst (write_files file_of output_path records (before @ [S]) fs) = None"
    unfolding one by simp
  moreover have "write_files file_of output_path records after
           (snd (write_files file_of output_path records (before @ [S]) fs)) = (None, fs')"
    unfolding one using after by (simp del: fun_upd_apply)
  ultimately show ?thesis using f ok by blast
qed

lemma main_None:
  assumes "fst (main raw output_path input_proteins file_of fs) = None"
  shows "\<exists>alignment_lines parsed records.
      parse_gesamt (read_gesamt_lines raw) = Inr (alignment_lines, parsed)
      \<and> label_records (chosen_proteins input_proteins parsed) alignment_lines = Inr records
      \<and> main raw output_path input_proteins file_of fs
          = write_files file_of output_path records (chosen_proteins input_proteins parsed) fs"
  using assms by (auto simp: main_def split: sum.splits prod.splits)

subsection \<open>Facts about the run\<close>

lemma label_records_rows:
  assumes "label_records proteins alignment_lines = Inr records" and "row \<in> set alignment_lines"
  shows "\<exists>d r. build_record proteins 0 row [] = Inr d \<and> add_generic_resname d = Inr r \<and> r \<in> set records"
proof -
  from assms(1) obtain ds where
    a: "map_res (\<lambda>line. build_record proteins 0 line []) alignment_lines = Inr ds"
    and b: "map_res add_generic_resname ds = Inr records"
    by (auto simp: label_records_def split: sum.splits)
  from a have la: "list_all2 (\<lambda>line d. build_record proteins 0 line [] = Inr d) alignment_lines ds"
    by (simp add: map_res_Inr_iff)
  from b have lb: "list_all2 (\<lambda>d r. add_generic_resname d = Inr r) ds records"
    by (simp add: map_res_Inr_iff)
  from assms(2) obtain i where i: "i < length alignment_lines" "alignment_lines ! i = row"
    by (auto simp: in_set_conv_nth)
  from la i have "build_record proteins 0 row [] = Inr (ds ! i)" and il: "i < length ds"
    by (auto simp: list_all2_conv_all_nth)
  moreover from lb il have "add_generic_resname (ds ! i) = Inr (records ! i)" and "i < length records"
    by (auto simp: list_all2_conv_all_nth)
  ultimately show ?thesis by (metis nth_mem)
qed

lemma record_keys:
  assumes "build_record proteins 0 row [] = Inr d" and "add_generic_resname d = Inr r"
  shows "fst ` set r = insert ''generic_resname'' (set (take (length row) proteins))"
    and "length row \<le> length proteins"
proof -
  from build_record_keys[OF assms(1)] have
    k: "fst ` set d = set (take (length row) proteins)"
    and l: "row \<noteq> [] \<longrightarrow> length row \<le> length proteins" by auto
  from l show "length row \<le> length proteins" by (cases row) auto
  from assms(2) have "r = dict_set ''generic_resname''
            (py_join ''-'' (map (\<lambda>protein. if the (map_of d protein) = [] then ''None''
                                           else the (map_of d protein)) (dict_keys d))) d"
    by (simp add: add_generic_resname_eq)
  then have "fst ` set r = insert ''generic_resname'' (fst ` set d)"
    by (simp only: dict_set_keys)
  with k show "fst ` set r = insert ''generic_resname'' (set (take (length row) proteins))" by simp
qed

lemma distinct_subset_take:
  assumes "distinct xs" and "set xs \<subseteq> set (take n xs)"
  shows "length xs \<le> n"
proof -
  have "length xs = card (set xs)" using assms(1) by (simp add: distinct_card)
  also have "\<dots> \<le> card (set (take n xs))" using assms(2) by (simp add: card_mono)
  also have "\<dots> \<le> length (take n xs)" by (rule card_length)
  also have "\<dots> \<le> n" by simp
  finally show ?thesis .
qed

lemma column_count_lemma:
  assumes "parse_gesamt (read_gesamt_lines raw) = Inr (alignment_lines, parsed)"
    and "fst (main raw output_path input_proteins file_of fs) = None"
    and "distinct (chosen_proteins input_proteins parsed)"
    and "''generic_resname'' \<notin> set (chosen_proteins input_proteins parsed)"
    and "row \<in> set alignment_lines"
  shows "length row = length (chosen_proteins input_proteins parsed)"
proof -
  let ?proteins = "chosen_proteins input_proteins parsed"
  from main_None[OF assms(2)] assms(1) obtain records where
    lr: "label_records ?proteins alignment_lines = Inr records"
    and m: "main raw output_path input_proteins file_of fs
          = write_files file_of output_path records ?proteins fs"
    by auto
  from label_records_rows[OF lr assms(5)] obtain d r where
    d: "build_record ?proteins 0 row [] = Inr d" and r: "add_generic_resname d = Inr r"
    and mem: "r \<in> set records" by blast
  note keys = record_keys[OF d r]
  from m assms(2) obtain fs' where w: "write_files file_of output_path records ?proteins fs = (None, fs')"
    by (cases "write_files file_of output_path records ?proteins fs") auto
  have "set ?proteins \<subseteq> set (take (length row) ?proteins)"
  proof
    fix S assume S: "S \<in> set ?proteins"
    from write_files_None[OF w S] have "fst (write_lines records S []) = None" by simp
    then have "write_lines records S [] = (None, snd (write_lines records S []))"
      by (cases "write_lines records S []") auto
    from write_lines_None[OF this] mem have "S \<in> fst ` set r" by blast
    with keys(1) S assms(4) show "S \<in> set (take (length row) ?proteins)" by auto
  qed
  from distinct_subset_take[OF assms(3) this] keys(2) show ?thesis by simp
qed

lemma map_add_single: "fs ++ [path \<mapsto> w] = fs(path \<mapsto> w)"
  by (rule ext) (simp add: map_add_def)

lemma map_add_twice: "(fs ++ written) ++ written = fs ++ written"
  by (rule ext) (simp add: map_add_def split: option.splits)

lemma write_files_add:
  "write_files file_of output_path records proteins fs
   = (fst (write_files file_of output_path records proteins Map.empty),
      fs ++ snd (write_files file_of output_path records proteins Map.empty))"
proof (induction proteins arbitrary: fs)
  case Nil
  then show ?case by simp
next
  case (Cons protein rest)
  show ?case
  proof (cases "py_open file_of (label_path output_path protein)")
    case (Inl e)
    then show ?thesis by simp
  next
    case (Inr f)
    show ?thesis
    proof (cases "fst (write_lines records protein [])")
      case (Some err)
      with Inr show ?thesis
        by (cases "write_lines records protein []") (simp add: map_add_single del: fun_upd_apply)
    next
      case None
      let ?w = "snd (write_lines records protein [])"
      have a: "write_files file_of output_path records rest (fs(f \<mapsto> ?w))
          = (fst (write_files file_of output_path records rest Map.empty),
             fs(f \<mapsto> ?w) ++ snd (write_files file_of output_path records rest Map.empty))"
        by (rule Cons.IH)
      have b: "write_files file_of output_path records rest (Map.empty(f \<mapsto> ?w))
          = (fst (write_files file_of output_path records rest Map.empty),
             Map.empty(f \<mapsto> ?w) ++ snd (write_files file_of output_path records rest Map.empty))"
        by (rule Cons.IH)
      have c: "fs ++ (Map.empty(f \<mapsto> ?w) ++ snd (write_files file_of output_path records rest Map.empty))
          = fs(f \<mapsto> ?w) ++ snd (write_files file_of output_path records rest Map.empty)"
        by (simp only: map_add_assoc map_add_single)
      have "write_files file_of output_path records (protein # rest) fs
          = write_files file_of output_path records rest (fs(f \<mapsto> ?w))"
        and "write_files file_of output_path records (protein # rest) Map.empty
          = write_files file_of output_path records rest (Map.empty(f \<mapsto> ?w))"
        by (rule write_files_step[OF Inr None])+
      with a b c show ?thesis by (simp only: fst_conv snd_conv)
    qed
  qed
qed

lemma main_add:
  "main raw output_path input_proteins file_of fs
   = (fst (main raw output_path input_proteins file_of Map.empty),
      fs ++ snd (main raw output_path input_proteins file_of Map.empty))"
proof (cases "parse_gesamt (read_gesamt_lines raw)")
  case (Inl e)
  then show ?thesis by (simp add: main_def)
next
  case (Inr res)
  obtain alignment_lines parsed where res: "res = (alignment_lines, parsed)" by (cases res)
  show ?thesis
  proof (cases "label_records (chosen_proteins input_proteins parsed) alignment_lines")
    case (Inl e)
    with Inr res show ?thesis by (simp add: main_def)
  next
    case (Inr records)
    with \<open>parse_gesamt (read_gesamt_lines raw) = Inr res\<close> res
    have "\<And>g. main raw output_path input_proteins file_of g
        = write_files file_of output_path records (chosen_proteins input_proteins parsed) g"
      by (simp add: main_def)
    then show ?thesis
      using write_files_add[of file_of output_path records "chosen_proteins input_proteins parsed" fs]
      by simp
  qed
qed

lemma main_rerun:
  "main raw output_path input_proteins file_of (snd (main raw output_path input_proteins file_of fs))
   = main raw output_path input_proteins file_of fs"
proof -
  let ?W = "snd (main raw output_path input_proteins file_of Map.empty)"
  have a: "snd (main raw output_path input_proteins file_of fs) = fs ++ ?W"
    using main_add[of raw output_path input_proteins file_of fs] by simp
  have "main raw output_path input_proteins file_of (fs ++ ?W)
      = (fst (main raw output_path input_proteins file_of Map.empty), (fs ++ ?W) ++ ?W)"
    by (rule main_add)
  also have "(fs ++ ?W) ++ ?W = fs ++ ?W"
    by (rule map_add_twice)
  finally show ?thesis
    using main_add[of raw output_path input_proteins file_of fs] a by simp
qed

lemma build_record_error: "build_record proteins idx rest d = Inl e \<Longrightarrow> e = IndexError"
  by (induction rest arbitrary: idx d) (auto simp: py_index_def split: if_splits)

lemma build_record_too_long:
  assumes "length row > length proteins"
  shows "build_record proteins 0 row [] = Inl IndexError"
proof (cases "build_record proteins 0 row []")
  case (Inl e)
  with build_record_error[OF Inl] show ?thesis by simp
next
  case (Inr d)
  from build_record_keys[OF Inr] assms show ?thesis by (cases row) auto
qed

lemma label_records_too_long:
  assumes "row \<in> set alignment_lines" and "length row > length proteins"
  shows "label_records proteins alignment_lines = Inl IndexError"
proof -
  have "map_res (\<lambda>line. build_record proteins 0 line []) alignment_lines = Inl IndexError"
    using assms(1) build_record_too_long[OF assms(2)]
    by (rule map_res_error[rotated]) (rule build_record_error)
  then show ?thesis by (simp add: label_records_def)
qed

subsection \<open>Pairwise normalization\<close>

lemma pair_fields_Inr:
  assumes "pair_fields line = Inr fields"
  shows "\<exists>query target. py_index (py_split ''|'' line) 1 = Inr query
           \<and> py_index (py_split ''|'' line) 3 = Inr target
           \<and> fields = [py_strip query, py_strip target]"
  using assms by (auto simp: pair_fields_def split: sum.splits)

lemma list_all2_compose:
  assumes "list_all2 P xs ys" and "list_all2 Q ys zs"
  shows "list_all2 (\<lambda>x z. \<exists>y. P x y \<and> Q y z) xs zs"
  using assms by (fastforce simp: list_all2_conv_all_nth)

lemma parse_two_queries_rows:
  assumes "parse_two_queries gesamt_lines = Inr (rows, proteins)"
  shows "list_all2 (\<lambda>line row. \<exists>query target a b.
             py_index (py_split ''|'' line) 1 = Inr query
           \<and> py_index (py_split ''|'' line) 3 = Inr target
           \<and> pair_token (py_strip query) = Inr a \<and> pair_token (py_strip target) = Inr b
           \<and> row = [a, b])
         (alignment_lines_of pairwise_header gesamt_lines) rows"
proof -
  from assms obtain fields where
    f: "map_res pair_fields (alignment_lines_of pairwise_header gesamt_lines) = Inr fields"
    and r: "map_res (map_res pair_token) fields = Inr rows"
    by (auto simp: parse_two_queries_def split: sum.splits)
  from f r have "list_all2 (\<lambda>line row. \<exists>fs. pair_fields line = Inr fs \<and> map_res pair_token fs = Inr row)
      (alignment_lines_of pairwise_header gesamt_lines) rows"
    by (intro list_all2_compose) (simp_all add: map_res_Inr_iff)
  then show ?thesis
  proof (rule list_all2_mono)
    fix line row
    assume "\<exists>fs. pair_fields line = Inr fs \<and> map_res pair_token fs = Inr row"
    then obtain fs where a: "pair_fields line = Inr fs" and b: "map_res pair_token fs = Inr row"
      by blast
    from pair_fields_Inr[OF a] obtain query target where
      q: "py_index (py_split ''|'' line) 1 = Inr query" "py_index (py_split ''|'' line) 3 = Inr target"
      and fs: "fs = [py_strip query, py_strip target]" by blast
    from b fs obtain a' b' where "pair_token (py_strip query) = Inr a'"
      "pair_token (py_strip target) = Inr b'" "row = [a', b']"
      by (auto split: sum.splits)
    with q show "\<exists>query target a b.
             py_index (py_split ''|'' line) 1 = Inr query
           \<and> py_index (py_split ''|'' line) 3 = Inr target
           \<and> pair_token (py_strip query) = Inr a \<and> pair_token (py_strip target) = Inr b
           \<and> row = [a, b]" by blast
  qed
qed

text \<open>
  Claim C1. In the pairwise parser a residue descriptor that is not empty becomes
  \<^verbatim>\<open>token[-9:-4]\<close>, a colon and the decimal form of \<^verbatim>\<open>int(token[-4:])\<close> (the \<^verbatim>\<open>strip\<close> of
  that decimal form changes nothing); when the last four characters are no integer the
  conversion raises ValueError. An empty descriptor stays the empty token. The two slices
  are the last four characters, and the up to five characters before them. Every row that
  the parser returns is made this way from the trimmed fields 1 and 3 of a line of the
  table.
\<close>

theorem pairwise_normalization:
  "pair_token token =
     (if token = [] then Inr []
      else case py_int (py_slice token (Some (- 4)) None) of
             None \<Rightarrow> Inl ValueError
           | Some n \<Rightarrow> Inr (py_slice token (Some (- 9)) (Some (- 4)) @ '':'' @ str_int n))
   \<and> py_slice token (Some (- 4)) None = drop (length token - 4) token
   \<and> py_slice token (Some (- 9)) (Some (- 4)) = drop (length token - 9) (take (length token - 4) token)
   \<and> (parse_two_queries gesamt_lines = Inr (rows, proteins) \<longrightarrow>
        list_all2 (\<lambda>line row. \<exists>query target a b.
             py_index (py_split ''|'' line) 1 = Inr query
           \<and> py_index (py_split ''|'' line) 3 = Inr target
           \<and> pair_token (py_strip query) = Inr a \<and> pair_token (py_strip target) = Inr b
           \<and> row = [a, b])
         (alignment_lines_of pairwise_header gesamt_lines) rows)"
proof -
  have a: "py_slice token (Some (- 4)) None = drop (length token - 4) token"
    using py_slice_last[where xs=token and k=4] by simp
  have b: "py_slice token (Some (- 9)) (Some (- 4)) = drop (length token - 9) (take (length token - 4) token)"
    using py_slice_mid[where xs=token and j=4 and k=9] by simp
  have c: "pair_token token =
     (if token = [] then Inr []
      else case py_int (py_slice token (Some (- 4)) None) of
             None \<Rightarrow> Inl ValueError
           | Some n \<Rightarrow> Inr (py_slice token (Some (- 9)) (Some (- 4)) @ '':'' @ str_int n))"
    by (simp add: pair_token_def py_strip_str_int split: option.splits)
  from a b c parse_two_queries_rows[of gesamt_lines rows proteins] show ?thesis by blast
qed

text \<open>
  The descriptor \<^verbatim>\<open>H- A:LEU  75\<close> becomes \<^verbatim>\<open>A:LEU:75\<close>, and the two rows of the pairwise
  report.
\<close>

theorem pairwise_normalization_example:
  "pair_token ''H- A:LEU  75'' = Inr ''A:LEU:75'' \<and> pair_token [] = Inr []
   \<and> parse_two_queries (read_gesamt_lines (pairwise_report ''foo1.pdb'' ''foo2.pdb''))
       = Inr ([[''A:LEU:75'', ''A:LEU:65''], [[], ''A:LEU:66'']], [''foo1'', ''foo2''])
   \<and> list_all2 (\<lambda>line row. \<exists>query target a b.
             py_index (py_split ''|'' line) 1 = Inr query
           \<and> py_index (py_split ''|'' line) 3 = Inr target
           \<and> pair_token (py_strip query) = Inr a \<and> pair_token (py_strip target) = Inr b
           \<and> row = [a, b])
         (alignment_lines_of pairwise_header (read_gesamt_lines (pairwise_report ''foo1.pdb'' ''foo2.pdb'')))
         [[''A:LEU:75'', ''A:LEU:65''], [[], ''A:LEU:66'']]"
proof -
  have "py_int (py_slice ''H- A:LEU  75'' (Some (- 4)) None) = Some 75" by code_simp
  moreover have "py_slice ''H- A:LEU  75'' (Some (- 9)) (Some (- 4)) = ''A:LEU''" by code_simp
  moreover have "str_int 75 = ''75''" by code_simp
  ultimately have a: "pair_token ''H- A:LEU  75'' = Inr ''A:LEU:75''" "pair_token [] = Inr []"
    using pairwise_normalization[of "''H- A:LEU  75''"] pairwise_normalization[of "[]"] by simp_all
  have p: "parse_two_queries (read_gesamt_lines (pairwise_report ''foo1.pdb'' ''foo2.pdb''))
       = Inr ([[''A:LEU:75'', ''A:LEU:65''], [[], ''A:LEU:66'']], [''foo1'', ''foo2''])"
    by code_simp
  from pairwise_normalization[of "[]" "read_gesamt_lines (pairwise_report ''foo1.pdb'' ''foo2.pdb'')"
      "[[''A:LEU:75'', ''A:LEU:65''], [[], ''A:LEU:66'']]" "[''foo1'', ''foo2'']"] p a
  show ?thesis by blast
qed

subsection \<open>Multi-way flag stripping\<close>

lemma count_list_after_first:
  "ch \<in> set s \<Longrightarrow> count_list s ch = Suc (count_list (tl (dropWhile (\<lambda>c. c \<noteq> ch) s)) ch)"
  by (induction s) auto

lemma strip_flag_one_bar:
  assumes "count_list token CHR ''|'' = 1"
  shows "strip_flag token = Inr (tl (dropWhile (\<lambda>c. c \<noteq> CHR ''|'') token))"
proof -
  define rest where "rest = tl (dropWhile (\<lambda>c. c \<noteq> CHR ''|'') token)"
  have mem: "CHR ''|'' \<in> set token"
  proof (rule ccontr)
    assume "CHR ''|'' \<notin> set token"
    then have "count_list token CHR ''|'' = 0" by (rule iffD2[OF count_list_0_iff])
    with assms show False by linarith
  qed
  have "count_list token CHR ''|'' = Suc (count_list rest CHR ''|'')"
    unfolding rest_def by (rule count_list_after_first[OF mem])
  with assms have "count_list rest CHR ''|'' = 0" by linarith
  then have "CHR ''|'' \<notin> set rest" by (rule iffD1[OF count_list_0_iff])
  then have unchanged: "takeWhile (\<lambda>c. c \<noteq> CHR ''|'') rest = rest"
    by (auto simp: takeWhile_eq_all_conv)
  have "strip_flag token = Inr (takeWhile (\<lambda>c. c \<noteq> CHR ''|'') rest)"
    unfolding rest_def using mem by (simp add: strip_flag_eq)
  then have "strip_flag token = Inr rest"
    by (simp only: unchanged)
  then show ?thesis by (simp only: rest_def)
qed

text \<open>
  Claim C5, as amended. A field of a multi-way body line that holds a bar is replaced by
  the second piece of its split at the bars: the text between the first bar and the
  second one, or the rest of the field when there is no second bar. With exactly one bar
  in the field this is the whole text after it. A field without a bar is kept. The
  fields are those of \<open>multi_fields\<close>: the line with \<^verbatim>\<open>|*|\<close> replaced, split at \<^verbatim>\<open>| |\<close>,
  trimmed, without the displacement.
\<close>

theorem flag_stripping:
  "strip_flag token =
     Inr (if CHR ''|'' \<in> set token
          then takeWhile (\<lambda>c. c \<noteq> CHR ''|'') (tl (dropWhile (\<lambda>c. c \<noteq> CHR ''|'') token))
          else token)
   \<and> (count_list token CHR ''|'' = 1 \<longrightarrow>
        strip_flag token = Inr (tl (dropWhile (\<lambda>c. c \<noteq> CHR ''|'') token)))
   \<and> reformat_line line =
       (case map_res strip_flag (multi_fields line) of
          Inl e \<Rightarrow> Inl e
        | Inr tokens \<Rightarrow> map_res multi_token tokens)"
  using strip_flag_eq[of token] strip_flag_one_bar[of token] reformat_line_def[of line] by blast

text \<open>\<^verbatim>\<open>H|A:ASN 103\<close> becomes \<^verbatim>\<open>A:ASN 103\<close>, and \<^verbatim>\<open>A:CYS 341\<close> is kept.\<close>

theorem flag_stripping_example:
  "count_list ''H|A:ASN 103'' CHR ''|'' = 1 \<and> strip_flag ''H|A:ASN 103'' = Inr ''A:ASN 103''
   \<and> strip_flag ''A:CYS 341'' = Inr ''A:CYS 341''"
  using flag_stripping[of "''H|A:ASN 103''"] flag_stripping[of "''A:CYS 341''"] by simp

text \<open>
  Counterexample to claim C5 as the specification words it, a field with two bars: of
  \<^verbatim>\<open>H|A:ASN 103|x\<close> the script keeps \<^verbatim>\<open>A:ASN 103\<close>, while the text after the first bar is
  \<^verbatim>\<open>A:ASN 103|x\<close>.
\<close>

theorem flag_stripping_second_bar:
  "strip_flag ''H|A:ASN 103|x'' = Inr ''A:ASN 103''
   \<and> tl (dropWhile (\<lambda>c. c \<noteq> CHR ''|'') ''H|A:ASN 103|x'') = ''A:ASN 103|x''"
  by (simp add: strip_flag_eq)

subsection \<open>Format detection\<close>

text \<open>
  Claim C4. The lines of the input are trimmed and the blank ones dropped, and their
  concatenation is searched: when it contains \<^verbatim>\<open>reading QUERY structure\<close> or
  \<^verbatim>\<open>reading FIXED structure\<close> the pairwise parser is applied to the lines, otherwise the
  multi-way parser is. The choice itself raises nothing.
\<close>

theorem format_detection:
  "parse_gesamt (read_gesamt_lines raw) =
     (if (\<exists>pre post. concat (read_gesamt_lines raw) = pre @ ''reading QUERY structure'' @ post)
         \<or> (\<exists>pre post. concat (read_gesamt_lines raw) = pre @ ''reading FIXED structure'' @ post)
      then parse_two_queries (read_gesamt_lines raw)
      else parse_more_than_two_queries (read_gesamt_lines raw))
   \<and> read_gesamt_lines raw = [py_strip line. line \<leftarrow> raw, py_strip line \<noteq> []]"
proof -
  have "read_gesamt_lines raw = [py_strip line. line \<leftarrow> raw, py_strip line \<noteq> []]"
    by (induction raw) (auto simp: read_gesamt_lines_def)
  then show ?thesis
    by (simp add: parse_gesamt_def pairwise_format_def is_substr_iff)
qed

subsection \<open>A report without the header of its table\<close>

lemma find_bounds_no_header:
  "(\<And>line. line \<in> set gesamt_lines \<Longrightarrow> \<not> header line)
   \<Longrightarrow> find_bounds header idx None gesamt_lines = (None, None)"
  by (induction gesamt_lines arbitrary: idx) (auto simp: falsy_def)

lemma alignment_lines_no_header:
  "(\<And>line. line \<in> set gesamt_lines \<Longrightarrow> \<not> header line)
   \<Longrightarrow> alignment_lines_of header gesamt_lines = gesamt_lines"
  by (simp add: alignment_lines_of_def find_bounds_no_header py_slice_all)

lemma hello_no_header: "\<not> multiway_header ''hello''"
  by (simp add: multiway_header_def py_strip_def strip_chars_def is_space_def)

lemma query_line_no_header: "\<not> pairwise_header ''reading QUERY structure 'q.pdb' ||||''"
  by code_simp

text \<open>
  Claim C6, as amended. When no line is a header for the parser, both indexes stay
  \<^verbatim>\<open>None\<close>, the slice \<^verbatim>\<open>gesamt_lines[None:None]\<close> raises nothing and is the whole list: every
  line of the input is then read as a line of the table.
\<close>

theorem missing_header_takes_all_lines:
  "((\<forall>line \<in> set gesamt_lines. \<not> pairwise_header line) \<longrightarrow>
      find_bounds pairwise_header 0 None gesamt_lines = (None, None)
      \<and> alignment_lines_of pairwise_header gesamt_lines = gesamt_lines)
   \<and> ((\<forall>line \<in> set gesamt_lines. \<not> multiway_header line) \<longrightarrow>
      find_bounds multiway_header 0 None gesamt_lines = (None, None)
      \<and> alignment_lines_of multiway_header gesamt_lines = gesamt_lines)"
proof (intro conjI impI)
  assume none: "\<forall>line \<in> set gesamt_lines. \<not> pairwise_header line"
  then show "find_bounds pairwise_header 0 None gesamt_lines = (None, None)"
    by (intro find_bounds_no_header) blast
  from none show "alignment_lines_of pairwise_header gesamt_lines = gesamt_lines"
    by (intro alignment_lines_no_header) blast
next
  assume none: "\<forall>line \<in> set gesamt_lines. \<not> multiway_header line"
  then show "find_bounds multiway_header 0 None gesamt_lines = (None, None)"
    by (intro find_bounds_no_header) blast
  from none show "alignment_lines_of multiway_header gesamt_lines = gesamt_lines"
    by (intro alignment_lines_no_header) blast
qed

text \<open>Two reports without a header, one for each parser.\<close>

theorem missing_header_takes_all_lines_example:
  "\<not> pairwise_header ''reading QUERY structure 'q.pdb' ||||''
   \<and> find_bounds pairwise_header 0 None [''reading QUERY structure 'q.pdb' ||||''] = (None, None)
   \<and> alignment_lines_of pairwise_header [''reading QUERY structure 'q.pdb' ||||'']
       = [''reading QUERY structure 'q.pdb' ||||'']
   \<and> \<not> multiway_header ''hello''
   \<and> find_bounds multiway_header 0 None [''hello''] = (None, None)
   \<and> alignment_lines_of multiway_header [''hello''] = [''hello'']"
  using missing_header_takes_all_lines[of "[''reading QUERY structure 'q.pdb' ||||'']"]
    missing_header_takes_all_lines[of "[''hello'']"] hello_no_header query_line_no_header
  by simp

text \<open>
  Counterexample to claim C6 as the specification words it. The report with the one line
  \<^verbatim>\<open>hello\<close> has no header; the multi-way parser returns one empty row and no name, and the
  run ends without an exception (and writes no file). For the pairwise parser, a report
  without a header whose only line has empty fields is parsed to one row of two gaps.
\<close>

theorem missing_header_run_completes:
  "\<not> pairwise_format (read_gesamt_lines [''hello'']) \<and> \<not> multiway_header ''hello''
   \<and> parse_more_than_two_queries (read_gesamt_lines [''hello'']) = Inr ([[]], [])
   \<and> main [''hello''] ''out'' None Some Map.empty = (None, Map.empty)
   \<and> \<not> pairwise_header ''reading QUERY structure 'q.pdb' ||||''
   \<and> parse_two_queries [''reading QUERY structure 'q.pdb' ||||''] = Inr ([[[], []]], [''q''])"
proof -
  have a: "read_gesamt_lines [''hello''] = [''hello'']" by code_simp
  have b: "\<not> pairwise_format [''hello'']" by code_simp
  have c: "parse_more_than_two_queries [''hello''] = Inr ([[]], [])" by code_simp
  have d: "label_records [] [[]] = Inr [[(''generic_resname'', [])]]" by code_simp
  have e: "main [''hello''] ''out'' None Some Map.empty = (None, Map.empty)"
    by (simp add: main_def a parse_gesamt_def b c chosen_proteins_def d)
  have f: "parse_two_queries [''reading QUERY structure 'q.pdb' ||||''] = Inr ([[[], []]], [''q''])"
    by code_simp
  from a b c e f hello_no_header query_line_no_header show ?thesis by simp
qed

subsection \<open>A marker line without a quoted path\<close>

lemma dropWhile_keeps_infix:
  assumes "m \<noteq> []" and "\<not> cls (hd m)"
  shows "\<exists>pre'. dropWhile cls (pre @ m @ post) = pre' @ m @ post"
proof (cases "\<forall>x \<in> set pre. cls x")
  case True
  from assms obtain a m' where m: "m = a # m'" and a: "\<not> cls a" by (cases m) auto
  from True have "dropWhile cls (pre @ m @ post) = dropWhile cls (m @ post)"
    by (simp add: dropWhile_append)
  also have "\<dots> = [] @ m @ post" using m a by simp
  finally show ?thesis by blast
next
  case False
  then have "dropWhile cls (pre @ m @ post) = dropWhile cls pre @ m @ post"
    by (auto simp: dropWhile_append)
  then show ?thesis by blast
qed

lemma strip_chars_keeps_infix:
  assumes "m \<noteq> []" and "\<not> cls (hd m)" and "\<not> cls (last m)"
  shows "\<exists>pre' post'. strip_chars cls (pre @ m @ post) = pre' @ m @ post'"
proof -
  from dropWhile_keeps_infix[where m=m and cls=cls and pre=pre and post=post] assms obtain pre'
    where a: "dropWhile cls (pre @ m @ post) = pre' @ m @ post" by blast
  have "rev m \<noteq> []" "\<not> cls (hd (rev m))"
    using assms by (simp_all add: hd_rev)
  with dropWhile_keeps_infix[where m="rev m" and cls=cls and pre="rev post" and post="rev pre'"] obtain q
    where b: "dropWhile cls (rev post @ rev m @ rev pre') = q @ rev m @ rev pre'" by blast
  have "strip_chars cls (pre @ m @ post) = rev (dropWhile cls (rev post @ rev m @ rev pre'))"
    by (simp add: strip_chars_def a)
  also have "\<dots> = pre' @ m @ rev q" by (simp add: b)
  finally show ?thesis by blast
qed

lemma strip_keeps_substr:
  assumes "m \<noteq> []" and "\<not> is_space (hd m)" and "\<not> is_space (last m)" and "is_substr m s"
  shows "is_substr m (py_strip s)"
proof -
  from assms(4) obtain pre post where "s = pre @ m @ post" by (auto simp: is_substr_iff)
  with strip_chars_keeps_infix[where m=m and cls=is_space and pre=pre and post=post] assms(1-3) show ?thesis
    by (auto simp: is_substr_iff py_strip_def)
qed

lemma set_py_strip: "set (py_strip s) \<subseteq> set s"
proof -
  have "set (py_strip s) \<subseteq> set (dropWhile is_space s)"
    unfolding py_strip_def strip_chars_def using set_dropWhileD[of _ is_space "rev (dropWhile is_space s)"]
    by auto
  also have "\<dots> \<subseteq> set s" using set_dropWhileD[of _ is_space s] by auto
  finally show ?thesis .
qed

lemma is_substr_nonempty: "is_substr m s \<Longrightarrow> m \<noteq> [] \<Longrightarrow> s \<noteq> []"
  by (cases s) auto

lemma pairwise_marker_strip: "pairwise_marker s \<Longrightarrow> pairwise_marker (py_strip s)"
  unfolding pairwise_marker_def
  by (elim disjE) (simp_all add: strip_keeps_substr is_space_def)

lemma multiway_marker_strip: "multiway_marker s \<Longrightarrow> multiway_marker (py_strip s)"
  unfolding multiway_marker_def by (simp add: strip_keeps_substr is_space_def)

lemma pairwise_marker_nonempty: "pairwise_marker s \<Longrightarrow> s \<noteq> []"
  unfolding pairwise_marker_def by (auto dest: is_substr_nonempty)

lemma multiway_marker_nonempty: "multiway_marker s \<Longrightarrow> s \<noteq> []"
  unfolding multiway_marker_def by (auto dest: is_substr_nonempty)

lemma read_gesamt_lines_mem:
  "raw_line \<in> set raw \<Longrightarrow> py_strip raw_line \<noteq> [] \<Longrightarrow> py_strip raw_line \<in> set (read_gesamt_lines raw)"
  by (auto simp: read_gesamt_lines_def)

lemma protein_of_line_no_quote: "quote \<notin> set line \<Longrightarrow> protein_of_line line = Inl IndexError"
  by (simp add: protein_of_line_def py_split_no_sep py_index_def)

lemma protein_of_line_error: "protein_of_line line = Inl e \<Longrightarrow> e = IndexError"
  by (auto simp: protein_of_line_def py_index_def split: if_splits sum.splits)

lemma read_proteins_no_quote:
  assumes "line \<in> set gesamt_lines" and "marker line" and "quote \<notin> set line"
  shows "read_proteins marker gesamt_lines = Inl IndexError"
  using assms
proof (induction gesamt_lines)
  case Nil
  then show ?case by simp
next
  case (Cons l ls)
  show ?case
  proof (cases "marker l")
    case False
    with Cons show ?thesis by auto
  next
    case True
    show ?thesis
    proof (cases "protein_of_line l")
      case (Inl e)
      with True protein_of_line_error[OF Inl] show ?thesis by simp
    next
      case (Inr p)
      with Cons.prems protein_of_line_no_quote have "line \<in> set ls" by auto
      with Cons have "read_proteins marker ls = Inl IndexError" by simp
      with True Inr show ?thesis by simp
    qed
  qed
qed

lemma parse_two_queries_no_quote:
  "line \<in> set gesamt_lines \<Longrightarrow> pairwise_marker line \<Longrightarrow> quote \<notin> set line
   \<Longrightarrow> parse_two_queries gesamt_lines = Inl IndexError"
  by (simp add: parse_two_queries_def read_proteins_no_quote)

lemma parse_more_no_quote:
  "line \<in> set gesamt_lines \<Longrightarrow> multiway_marker line \<Longrightarrow> quote \<notin> set line
   \<Longrightarrow> parse_more_than_two_queries gesamt_lines = Inl IndexError"
  by (simp add: parse_more_than_two_queries_def read_proteins_no_quote)

lemma main_no_quote:
  assumes "raw_line \<in> set raw" and "quote \<notin> set raw_line"
    and "if pairwise_format (read_gesamt_lines raw) then pairwise_marker raw_line
         else multiway_marker raw_line"
  shows "main raw output_path input_proteins file_of fs = (Some IndexError, fs)"
proof -
  let ?line = "py_strip raw_line"
  have q: "quote \<notin> set ?line" using assms(2) set_py_strip by blast
  show ?thesis
  proof (cases "pairwise_format (read_gesamt_lines raw)")
    case True
    with assms(3) have m: "pairwise_marker ?line" by (simp add: pairwise_marker_strip)
    then have "?line \<in> set (read_gesamt_lines raw)"
      using assms(1) by (simp add: read_gesamt_lines_mem pairwise_marker_nonempty)
    from parse_two_queries_no_quote[OF this m q] True show ?thesis
      by (simp add: main_def parse_gesamt_def)
  next
    case False
    with assms(3) have m: "multiway_marker ?line" by (simp add: multiway_marker_strip)
    then have "?line \<in> set (read_gesamt_lines raw)"
      using assms(1) by (simp add: read_gesamt_lines_mem multiway_marker_nonempty)
    from parse_more_no_quote[OF this m q] False show ?thesis
      by (simp add: main_def parse_gesamt_def)
  qed
qed

lemma is_substr_concat:
  assumes "line \<in> set gesamt_lines" and "is_substr m line"
  shows "is_substr m (concat gesamt_lines)"
proof -
  from assms(1) obtain xs ys where "gesamt_lines = xs @ line # ys" by (auto dest: split_list)
  moreover from assms(2) obtain pre post where "line = pre @ m @ post" by (auto simp: is_substr_iff)
  ultimately have "concat gesamt_lines = (concat xs @ pre) @ m @ (post @ concat ys)" by simp
  then show ?thesis unfolding is_substr_iff by blast
qed

lemma query_line_selects_pairwise:
  assumes "raw_line \<in> set raw"
    and "is_substr ''reading QUERY structure'' raw_line \<or> is_substr ''reading FIXED structure'' raw_line"
  shows "pairwise_format (read_gesamt_lines raw)" and "pairwise_marker raw_line"
proof -
  from assms(2) show m: "pairwise_marker raw_line" by (auto simp: pairwise_marker_def)
  then have "py_strip raw_line \<in> set (read_gesamt_lines raw)"
    using assms(1) pairwise_marker_strip[OF m]
    by (simp add: read_gesamt_lines_mem pairwise_marker_nonempty)
  moreover from assms(2) have "is_substr ''reading QUERY structure'' (py_strip raw_line)
      \<or> is_substr ''reading FIXED structure'' (py_strip raw_line)"
    by (auto simp: strip_keeps_substr is_space_def)
  ultimately show "pairwise_format (read_gesamt_lines raw)"
    unfolding pairwise_format_def using is_substr_concat by blast
qed

lemma main_no_quote_query:
  assumes "raw_line \<in> set raw" and "quote \<notin> set raw_line"
    and "is_substr ''reading QUERY structure'' raw_line \<or> is_substr ''reading FIXED structure'' raw_line"
  shows "main raw output_path input_proteins file_of fs = (Some IndexError, fs)"
  using query_line_selects_pairwise[OF assms(1,3)] main_no_quote[OF assms(1,2)] by simp

text \<open>
  Claim C9, as amended. A line without a single quote is one piece when split at the
  quote, so \<^verbatim>\<open>line.split("'")[1]\<close> raises IndexError. The pairwise parser raises it for a
  line with any of its four markers, the multi-way parser for a line with
  \<^verbatim>\<open>... reading file\<close>; and when a line of the input holds a marker of the parser that the
  run selects, and no single quote, the run ends with IndexError and the files are as
  before. A line with the QUERY or the FIXED marker selects the pairwise parser by itself.
  A marker of the parser that the run does not select is not looked for.
\<close>

theorem marker_line_without_quote:
  "(quote \<notin> set line \<longrightarrow> py_split [quote] line = [line] \<and> protein_of_line line = Inl IndexError)
   \<and> (line \<in> set gesamt_lines \<and> quote \<notin> set line \<and> pairwise_marker line \<longrightarrow>
        parse_two_queries gesamt_lines = Inl IndexError)
   \<and> (line \<in> set gesamt_lines \<and> quote \<notin> set line \<and> multiway_marker line \<longrightarrow>
        parse_more_than_two_queries gesamt_lines = Inl IndexError)
   \<and> (raw_line \<in> set raw \<and> quote \<notin> set raw_line
        \<and> (if pairwise_format (read_gesamt_lines raw) then pairwise_marker raw_line
            else multiway_marker raw_line) \<longrightarrow>
        main raw output_path input_proteins file_of fs = (Some IndexError, fs))
   \<and> (raw_line \<in> set raw \<and> quote \<notin> set raw_line
        \<and> (is_substr ''reading QUERY structure'' raw_line
            \<or> is_substr ''reading FIXED structure'' raw_line) \<longrightarrow>
        main raw output_path input_proteins file_of fs = (Some IndexError, fs))"
  using py_split_no_sep[of quote line] protein_of_line_no_quote[of line]
    parse_two_queries_no_quote[of line gesamt_lines] parse_more_no_quote[of line gesamt_lines]
    main_no_quote[of raw_line raw output_path input_proteins file_of fs]
    main_no_quote_query[of raw_line raw output_path input_proteins file_of fs]
  by blast

text \<open>A multi-way report and a pairwise report whose marker line has no quoted path.\<close>

theorem marker_line_without_quote_example:
  "quote \<notin> set '' ... reading file s1.pdb ''
   \<and> multiway_marker '' ... reading file s1.pdb ''
   \<and> \<not> pairwise_format (read_gesamt_lines ['' ... reading file s1.pdb ''])
   \<and> parse_more_than_two_queries ['' ... reading file s1.pdb ''] = Inl IndexError
   \<and> main ['' ... reading file s1.pdb ''] ''out'' None Some Map.empty = (Some IndexError, Map.empty)
   \<and> quote \<notin> set ''... reading MOVING structure from file m.pdb''
   \<and> pairwise_marker ''... reading MOVING structure from file m.pdb''
   \<and> parse_two_queries [''... reading MOVING structure from file m.pdb''] = Inl IndexError
   \<and> is_substr ''reading QUERY structure'' ''... reading QUERY structure from file q.pdb''
   \<and> quote \<notin> set ''... reading QUERY structure from file q.pdb''
   \<and> main [''hello'', ''... reading QUERY structure from file q.pdb''] ''out'' None Some Map.empty
       = (Some IndexError, Map.empty)"
proof -
  have a: "quote \<notin> set '' ... reading file s1.pdb ''" by code_simp
  have b: "multiway_marker '' ... reading file s1.pdb ''" by code_simp
  have c: "\<not> pairwise_format (read_gesamt_lines ['' ... reading file s1.pdb ''])" by code_simp
  have d: "quote \<notin> set ''... reading MOVING structure from file m.pdb''" by code_simp
  have e: "pairwise_marker ''... reading MOVING structure from file m.pdb''" by code_simp
  note t1 = marker_line_without_quote[where line="'' ... reading file s1.pdb ''"
      and gesamt_lines="['' ... reading file s1.pdb '']"
      and raw_line="'' ... reading file s1.pdb ''" and raw="['' ... reading file s1.pdb '']"
      and output_path="''out''" and input_proteins=None and file_of=Some and fs=Map.empty]
  note t2 = marker_line_without_quote[where line="''... reading MOVING structure from file m.pdb''"
      and gesamt_lines="[''... reading MOVING structure from file m.pdb'']"
      and raw_line="[]" and raw="[]"
      and output_path="''out''" and input_proteins=None and file_of=Some and fs=Map.empty]
  from a b c t1 have "parse_more_than_two_queries ['' ... reading file s1.pdb ''] = Inl IndexError"
    and "main ['' ... reading file s1.pdb ''] ''out'' None Some Map.empty = (Some IndexError, Map.empty)"
    by simp_all
  moreover from d e t2 have "parse_two_queries [''... reading MOVING structure from file m.pdb''] = Inl IndexError"
    by simp
  moreover have f: "is_substr ''reading QUERY structure'' ''... reading QUERY structure from file q.pdb''"
    and g: "quote \<notin> set ''... reading QUERY structure from file q.pdb''"
    by code_simp+
  moreover from f g marker_line_without_quote[where raw_line="''... reading QUERY structure from file q.pdb''"
      and raw="[''hello'', ''... reading QUERY structure from file q.pdb'']"
      and output_path="''out''" and input_proteins=None and file_of=Some and fs=Map.empty]
  have "main [''hello'', ''... reading QUERY structure from file q.pdb''] ''out'' None Some Map.empty
       = (Some IndexError, Map.empty)"
    by simp
  ultimately show ?thesis using a b c d e by blast
qed

text \<open>
  Counterexample to claim C9 as the specification words it, a line with the TARGET marker
  and no single quote, in an input with neither the QUERY nor the FIXED marker: the run
  selects the multi-way parser, which looks for \<^verbatim>\<open>... reading file\<close> only, finds no name
  and no table header, and takes the line as a body line with no field after the
  displacement. The run ends without an exception and writes no file.
\<close>

theorem marker_line_without_quote_target_only:
  "pairwise_marker ''... reading TARGET structure from file t.pdb''
   \<and> quote \<notin> set ''... reading TARGET structure from file t.pdb''
   \<and> read_gesamt_lines [''... reading TARGET structure from file t.pdb'']
       = [''... reading TARGET structure from file t.pdb'']
   \<and> \<not> pairwise_format [''... reading TARGET structure from file t.pdb'']
   \<and> \<not> multiway_marker ''... reading TARGET structure from file t.pdb''
   \<and> parse_gesamt [''... reading TARGET structure from file t.pdb''] = Inr ([[]], [])
   \<and> main [''... reading TARGET structure from file t.pdb''] ''out'' None Some Map.empty
       = (None, Map.empty)"
proof -
  let ?line = "''... reading TARGET structure from file t.pdb''"
  have a: "pairwise_marker ?line" by code_simp
  have b: "quote \<notin> set ?line" by code_simp
  have c: "read_gesamt_lines [?line] = [?line]" by code_simp
  have d: "\<not> pairwise_format [?line]" by code_simp
  have e: "\<not> multiway_marker ?line" by code_simp
  have f: "parse_gesamt [?line] = Inr ([[]], [])" by code_simp
  have g: "label_records [] [[]] = Inr [[(''generic_resname'', [])]]" by code_simp
  have h: "main [?line] ''out'' None Some Map.empty = (None, Map.empty)"
    by (simp add: main_def c f chosen_proteins_def g)
  from a b c d e f h show ?thesis by blast
qed

subsection \<open>The generic label\<close>

text \<open>
  Claim C3, as amended. When the structure names are pairwise distinct and every row has
  one residue for each name, the records are built without an exception, and in the
  record of every row \<^verbatim>\<open>generic_resname\<close> is the join with \<^verbatim>\<open>-\<close> of the residues of the row in
  the order of the names, \<^verbatim>\<open>None\<close> standing for an empty residue; the record holds under
  each name (other than \<^verbatim>\<open>generic_resname\<close> itself) the residue of its column.
\<close>

theorem generic_resname_in_structure_order:
  assumes "distinct proteins"
    and "\<forall>line \<in> set alignment_lines. length line = length proteins"
  shows "\<exists>records. label_records proteins alignment_lines = Inr records
    \<and> length records = length alignment_lines
    \<and> (\<forall>i < length alignment_lines.
         dict_get (records ! i) ''generic_resname''
           = Inr (py_join ''-'' (map (\<lambda>residue. if residue = [] then ''None'' else residue)
                                     (alignment_lines ! i)))
         \<and> (\<forall>k < length proteins. proteins ! k \<noteq> ''generic_resname'' \<longrightarrow>
               dict_get (records ! i) (proteins ! k) = Inr (alignment_lines ! i ! k)))"
proof -
  let ?records = "map (\<lambda>line. dict_set ''generic_resname''
                 (py_join ''-'' (map (\<lambda>residue. if residue = [] then ''None'' else residue) line))
                 (zip proteins line)) alignment_lines"
  have "label_records proteins alignment_lines = Inr ?records"
    using assms by (intro label_records_distinct) auto
  moreover have "length ?records = length alignment_lines" by simp
  moreover have "\<forall>i < length alignment_lines.
         dict_get (?records ! i) ''generic_resname''
           = Inr (py_join ''-'' (map (\<lambda>residue. if residue = [] then ''None'' else residue)
                                     (alignment_lines ! i)))
         \<and> (\<forall>k < length proteins. proteins ! k \<noteq> ''generic_resname'' \<longrightarrow>
               dict_get (?records ! i) (proteins ! k) = Inr (alignment_lines ! i ! k))"
  proof (intro allI impI conjI)
    fix i assume i: "i < length alignment_lines"
    show "dict_get (?records ! i) ''generic_resname''
           = Inr (py_join ''-'' (map (\<lambda>residue. if residue = [] then ''None'' else residue)
                                     (alignment_lines ! i)))"
      using i by (simp add: dict_get_set)
    fix k assume k: "k < length proteins" "proteins ! k \<noteq> ''generic_resname''"
    from i assms(2) have "length (alignment_lines ! i) = length proteins" by simp
    with k assms(1) i show "dict_get (?records ! i) (proteins ! k) = Inr (alignment_lines ! i ! k)"
      by (simp add: dict_get_set dict_get_zip)
  qed
  ultimately show ?thesis by blast
qed

text \<open>
  The row of the three-structure report with a gap in the last column: the label is
  \<^verbatim>\<open>A:CYS:341-A:MET:456-None\<close>.
\<close>

theorem generic_resname_example:
  "distinct [''s1'', ''s2'', ''s3'']
   \<and> length [''A:CYS:341'', ''A:MET:456'', []] = length [''s1'', ''s2'', ''s3'']
   \<and> (\<exists>records. label_records [''s1'', ''s2'', ''s3''] [[''A:CYS:341'', ''A:MET:456'', []]] = Inr records
         \<and> dict_get (records ! 0) ''generic_resname'' = Inr ''A:CYS:341-A:MET:456-None''
         \<and> dict_get (records ! 0) ''s3'' = Inr [])"
proof -
  have d: "distinct [''s1'', ''s2'', ''s3'']" by simp
  have l: "\<forall>line \<in> set [[''A:CYS:341'', ''A:MET:456'', []]]. length line = length [''s1'', ''s2'', ''s3'']"
    by simp
  from generic_resname_in_structure_order[OF d l] obtain records where
    r: "label_records [''s1'', ''s2'', ''s3''] [[''A:CYS:341'', ''A:MET:456'', []]] = Inr records"
    and g: "dict_get (records ! 0) ''generic_resname''
       = Inr (py_join ''-'' (map (\<lambda>residue. if residue = [] then ''None'' else residue)
               ([[''A:CYS:341'', ''A:MET:456'', []]] ! 0)))"
    and k: "\<forall>k < length [''s1'', ''s2'', ''s3'']. [''s1'', ''s2'', ''s3''] ! k \<noteq> ''generic_resname'' \<longrightarrow>
               dict_get (records ! 0) ([''s1'', ''s2'', ''s3''] ! k) = Inr ([[''A:CYS:341'', ''A:MET:456'', []]] ! 0 ! k)"
    by auto
  from g have g': "dict_get (records ! 0) ''generic_resname'' = Inr ''A:CYS:341-A:MET:456-None''"
    by simp
  from k[rule_format, of 2] have "dict_get (records ! 0) ''s3'' = Inr []" by simp
  with r g' d show ?thesis by auto
qed

text \<open>
  Counterexample to claim C3 as the specification words it, a name that comes twice. For
  a report of one file aligned with itself both names are \<^verbatim>\<open>a\<close>; the record of the first
  row is \<^verbatim>\<open>{a: A:LEU:65}\<close> and its label is \<^verbatim>\<open>A:LEU:65\<close>, not the join \<^verbatim>\<open>A:LEU:75-A:LEU:65\<close>
  of the two residues of the row.
\<close>

theorem generic_resname_same_name_twice:
  "parse_gesamt (read_gesamt_lines (pairwise_report ''a.pdb'' ''a.pdb''))
     = Inr ([[''A:LEU:75'', ''A:LEU:65''], [[], ''A:LEU:66'']], [''a'', ''a''])
   \<and> label_records [''a'', ''a''] [[''A:LEU:75'', ''A:LEU:65''], [[], ''A:LEU:66'']]
     = Inr [[(''a'', ''A:LEU:65''), (''generic_resname'', ''A:LEU:65'')],
            [(''a'', ''A:LEU:66''), (''generic_resname'', ''A:LEU:66'')]]
   \<and> py_join ''-'' [''A:LEU:75'', ''A:LEU:65''] = ''A:LEU:75-A:LEU:65''"
proof -
  have a: "parse_gesamt (read_gesamt_lines (pairwise_report ''a.pdb'' ''a.pdb''))
     = Inr ([[''A:LEU:75'', ''A:LEU:65''], [[], ''A:LEU:66'']], [''a'', ''a''])"
    by code_simp
  have b: "label_records [''a'', ''a''] [[''A:LEU:75'', ''A:LEU:65''], [[], ''A:LEU:66'']]
     = Inr [[(''a'', ''A:LEU:65''), (''generic_resname'', ''A:LEU:65'')],
            [(''a'', ''A:LEU:66''), (''generic_resname'', ''A:LEU:66'')]]"
    by code_simp
  from a b show ?thesis by simp
qed

subsection \<open>The lines of a label file\<close>

text \<open>
  Claim C2. In a run that ends without an exception, the names are written one after
  the other, and for every name \<open>S\<close> the run opens a file \<open>f\<close> at the path of \<open>S\<close> and
  writes to it, in the order of the records, the line \<^verbatim>\<open><token>\t<generic_resname>\t\n\<close>
  of each record whose token for \<open>S\<close> is not empty, and nothing else: a record with an
  empty token for \<open>S\<close> gives no line. The records are those that \<open>label_records\<close> builds
  from the parsed rows. These lines are the content of \<open>f\<close> once \<open>S\<close> is written; the rest
  of the run is the writing of the names after \<open>S\<close>; and they are the content of \<open>f\<close> at
  the end of the run when no name after \<open>S\<close> opens the same file \<open>f\<close>.
\<close>

theorem label_file_lines:
  assumes "parse_gesamt (read_gesamt_lines raw) = Inr (alignment_lines, parsed)"
    and "label_records (chosen_proteins input_proteins parsed) alignment_lines = Inr records"
    and "chosen_proteins input_proteins parsed = before @ S # after"
    and "fst (main raw output_path input_proteins file_of fs) = None"
  shows "\<exists>f. py_open file_of (label_path output_path S) = Inr f
      \<and> write_lines records S []
          = (None, concat [label_line (token_of line S) (token_of line ''generic_resname'').
                           line \<leftarrow> records, token_of line S \<noteq> []])
      \<and> snd (write_files file_of output_path records (before @ [S]) fs) f
          = Some (concat [label_line (token_of line S) (token_of line ''generic_resname'').
                          line \<leftarrow> records, token_of line S \<noteq> []])
      \<and> main raw output_path input_proteins file_of fs
          = write_files file_of output_path records after
              (snd (write_files file_of output_path records (before @ [S]) fs))
      \<and> ((\<forall>S' \<in> set after. py_open file_of (label_path output_path S') \<noteq> Inr f) \<longrightarrow>
           snd (main raw output_path input_proteins file_of fs) f
             = Some (concat [label_line (token_of line S) (token_of line ''generic_resname'').
                             line \<leftarrow> records, token_of line S \<noteq> []]))
      \<and> label_line residue generic = residue @ [CHR 0x09] @ generic @ [CHR 0x09, CHR 0x0A]"
proof -
  let ?lines = "concat [label_line (token_of line S) (token_of line ''generic_resname'').
                        line \<leftarrow> records, token_of line S \<noteq> []]"
  let ?mid = "snd (write_files file_of output_path records (before @ [S]) fs)"
  from assms(1,2,3) have m: "main raw output_path input_proteins file_of fs
      = write_files file_of output_path records (before @ S # after) fs"
    by (simp add: main_def)
  with assms(4) obtain fs' where
    w: "write_files file_of output_path records (before @ S # after) fs = (None, fs')"
    by (cases "write_files file_of output_path records (before @ S # after) fs") auto
  from write_files_split[OF w] obtain f where
    f: "py_open file_of (label_path output_path S) = Inr f"
    and ok: "fst (write_lines records S []) = None"
    and mid: "?mid f = Some (snd (write_lines records S []))"
    and rest: "write_files file_of output_path records after ?mid = (None, fs')"
    by blast
  from ok have "write_lines records S [] = (None, snd (write_lines records S []))"
    by (cases "write_lines records S []") auto
  from write_lines_None[OF this] have content: "snd (write_lines records S []) = ?lines"
    by simp
  with ok have wl: "write_lines records S [] = (None, ?lines)"
    by (cases "write_lines records S []") auto
  have final: "snd (main raw output_path input_proteins file_of fs) f = Some ?lines"
    if "\<forall>S' \<in> set after. py_open file_of (label_path output_path S') \<noteq> Inr f"
  proof -
    from that have "fs' f = ?mid f"
      by (intro write_files_unwritten[OF rest]) blast
    with mid content m w show ?thesis by simp
  qed
  have line: "label_line residue generic = residue @ [CHR 0x09] @ generic @ [CHR 0x09, CHR 0x0A]"
    by (simp add: label_line_def tab_def newline_def)
  from f wl mid content m w rest final line show ?thesis by auto
qed

text \<open>
  The pairwise report, every path a file of its own: the file of \<^verbatim>\<open>foo1\<close> has one line,
  since the structure has a gap in the second row; the file of \<^verbatim>\<open>foo2\<close> has both.
\<close>

theorem label_file_lines_example:
  "parse_gesamt (read_gesamt_lines (pairwise_report ''foo1.pdb'' ''foo2.pdb''))
     = Inr ([[''A:LEU:75'', ''A:LEU:65''], [[], ''A:LEU:66'']], [''foo1'', ''foo2''])
   \<and> label_records [''foo1'', ''foo2''] [[''A:LEU:75'', ''A:LEU:65''], [[], ''A:LEU:66'']]
     = Inr [[(''foo1'', ''A:LEU:75''), (''foo2'', ''A:LEU:65''), (''generic_resname'', ''A:LEU:75-A:LEU:65'')],
            [(''foo1'', []), (''foo2'', ''A:LEU:66''), (''generic_resname'', ''None-A:LEU:66'')]]
   \<and> fst (main (pairwise_report ''foo1.pdb'' ''foo2.pdb'') ''out'' None Some Map.empty) = None
   \<and> py_open Some (label_path ''out'' ''foo1'') = Inr ''out/foo1.label''
   \<and> py_open Some (label_path ''out'' ''foo2'') = Inr ''out/foo2.label''
   \<and> snd (main (pairwise_report ''foo1.pdb'' ''foo2.pdb'') ''out'' None Some Map.empty) ''out/foo1.label''
       = Some (''A:LEU:75'' @ [CHR 0x09] @ ''A:LEU:75-A:LEU:65'' @ [CHR 0x09, CHR 0x0A])
   \<and> snd (main (pairwise_report ''foo1.pdb'' ''foo2.pdb'') ''out'' None Some Map.empty) ''out/foo2.label''
       = Some (''A:LEU:65'' @ [CHR 0x09] @ ''A:LEU:75-A:LEU:65'' @ [CHR 0x09, CHR 0x0A]
               @ ''A:LEU:66'' @ [CHR 0x09] @ ''None-A:LEU:66'' @ [CHR 0x09, CHR 0x0A])"
proof -
  let ?raw = "pairwise_report ''foo1.pdb'' ''foo2.pdb''"
  let ?rows = "[[''A:LEU:75'', ''A:LEU:65''], [[], ''A:LEU:66'']]"
  let ?records = "[[(''foo1'', ''A:LEU:75''), (''foo2'', ''A:LEU:65''), (''generic_resname'', ''A:LEU:75-A:LEU:65'')],
                   [(''foo1'', []), (''foo2'', ''A:LEU:66''), (''generic_resname'', ''None-A:LEU:66'')]]"
  let ?run = "main ?raw ''out'' None Some Map.empty"
  have p: "parse_gesamt (read_gesamt_lines ?raw) = Inr (?rows, [''foo1'', ''foo2''])"
    by code_simp
  have c: "chosen_proteins None [''foo1'', ''foo2''] = [''foo1'', ''foo2'']"
    by (simp add: chosen_proteins_def)
  have r: "label_records (chosen_proteins None [''foo1'', ''foo2'']) ?rows = Inr ?records"
    by code_simp
  have m: "fst ?run = None"
    by code_simp
  have o1: "py_open Some (label_path ''out'' ''foo1'') = Inr ''out/foo1.label''"
    and o2: "py_open Some (label_path ''out'' ''foo2'') = Inr ''out/foo2.label''"
    by code_simp+
  have s1: "chosen_proteins None [''foo1'', ''foo2''] = [] @ ''foo1'' # [''foo2'']"
    and s2: "chosen_proteins None [''foo1'', ''foo2''] = [''foo1''] @ ''foo2'' # []"
    by (simp_all add: c)
  from label_file_lines[OF p r s1 m] obtain f1 where
    f1: "py_open Some (label_path ''out'' ''foo1'') = Inr f1"
    and l1: "(\<forall>S' \<in> set [''foo2'']. py_open Some (label_path ''out'' S') \<noteq> Inr f1) \<longrightarrow>
           snd ?run f1
             = Some (concat [label_line (token_of line ''foo1'') (token_of line ''generic_resname'').
                             line \<leftarrow> ?records, token_of line ''foo1'' \<noteq> []])"
    by blast
  from f1 o1 have e1: "f1 = ''out/foo1.label''" by simp
  from l1 o2 have a: "snd ?run ''out/foo1.label''
       = Some (''A:LEU:75'' @ [CHR 0x09] @ ''A:LEU:75-A:LEU:65'' @ [CHR 0x09, CHR 0x0A])"
    unfolding e1 by (simp add: token_of_def label_line_def tab_def newline_def)
  from label_file_lines[OF p r s2 m] obtain f2 where
    f2: "py_open Some (label_path ''out'' ''foo2'') = Inr f2"
    and l2: "(\<forall>S' \<in> set []. py_open Some (label_path ''out'' S') \<noteq> Inr f2) \<longrightarrow>
           snd ?run f2
             = Some (concat [label_line (token_of line ''foo2'') (token_of line ''generic_resname'').
                             line \<leftarrow> ?records, token_of line ''foo2'' \<noteq> []])"
    by blast
  from f2 o2 have e2: "f2 = ''out/foo2.label''" by simp
  from l2 have b: "snd ?run ''out/foo2.label''
       = Some (''A:LEU:65'' @ [CHR 0x09] @ ''A:LEU:75-A:LEU:65'' @ [CHR 0x09, CHR 0x0A]
               @ ''A:LEU:66'' @ [CHR 0x09] @ ''None-A:LEU:66'' @ [CHR 0x09, CHR 0x0A])"
    unfolding e2 by (simp add: token_of_def label_line_def tab_def newline_def)
  from p r[unfolded c] m o1 o2 a b show ?thesis by blast
qed

text \<open>
  When two names open the same file, the file holds the lines of the later name at the
  end of the run: here \<^verbatim>\<open>a\<close> and \<^verbatim>\<open>./a\<close> are the two names, and \<^verbatim>\<open>out/./a.label\<close> is
  the file \<^verbatim>\<open>out/a.label\<close>.
\<close>

lemma later_name_same_file:
  "parse_gesamt (read_gesamt_lines (pairwise_report ''a.pdb'' ''./a.pdb''))
     = Inr ([[''A:LEU:75'', ''A:LEU:65''], [[], ''A:LEU:66'']], [''a'', ''./a''])
   \<and> py_open one_directory (label_path ''out'' ''a'') = Inr ''out/a.label''
   \<and> py_open one_directory (label_path ''out'' ''./a'') = Inr ''out/a.label''
   \<and> fst (main (pairwise_report ''a.pdb'' ''./a.pdb'') ''out'' None one_directory Map.empty) = None
   \<and> snd (main (pairwise_report ''a.pdb'' ''./a.pdb'') ''out'' None one_directory Map.empty) ''out/a.label''
       = Some (''A:LEU:65'' @ [CHR 0x09] @ ''A:LEU:75-A:LEU:65'' @ [CHR 0x09, CHR 0x0A]
               @ ''A:LEU:66'' @ [CHR 0x09] @ ''None-A:LEU:66'' @ [CHR 0x09, CHR 0x0A])
   \<and> snd (main (pairwise_report ''a.pdb'' ''./a.pdb'') ''out'' None one_directory Map.empty) ''out/./a.label''
       = None"
proof -
  let ?run = "main (pairwise_report ''a.pdb'' ''./a.pdb'') ''out'' None one_directory Map.empty"
  have "parse_gesamt (read_gesamt_lines (pairwise_report ''a.pdb'' ''./a.pdb''))
     = Inr ([[''A:LEU:75'', ''A:LEU:65''], [[], ''A:LEU:66'']], [''a'', ''./a''])"
    by code_simp
  moreover have "py_open one_directory (label_path ''out'' ''a'') = Inr ''out/a.label''"
    and "py_open one_directory (label_path ''out'' ''./a'') = Inr ''out/a.label''"
    by code_simp+
  moreover have "fst ?run = None" by code_simp
  moreover have "snd ?run ''out/a.label''
       = Some (''A:LEU:65'' @ [CHR 0x09] @ ''A:LEU:75-A:LEU:65'' @ [CHR 0x09, CHR 0x0A]
               @ ''A:LEU:66'' @ [CHR 0x09] @ ''None-A:LEU:66'' @ [CHR 0x09, CHR 0x0A])"
    by code_simp
  moreover have "snd ?run ''out/./a.label'' = None" by code_simp
  ultimately show ?thesis by blast
qed

text \<open>A name with a NUL character: \<^verbatim>\<open>open\<close> raises ValueError.\<close>

lemma nul_in_path:
  "py_open Some (label_path ''out'' [CHR ''a'', CHR 0x00]) = Inl ValueError"
  by code_simp

subsection \<open>The number of columns\<close>

text \<open>
  Claim C7, as amended. The script never compares the length of a row with the number
  of names. What holds for a parsed row is this: when the run ends without an exception,
  and the names in use (the \<^verbatim>\<open>--proteins\<close> list when given, the parsed names otherwise) are
  pairwise distinct and none of them is \<^verbatim>\<open>generic_resname\<close>, the row has exactly one token
  for each name; and a row with more tokens than there are names ends the run with
  IndexError before any file is opened.
\<close>

theorem column_count_of_completed_run:
  assumes "parse_gesamt (read_gesamt_lines raw) = Inr (alignment_lines, parsed)"
    and "row \<in> set alignment_lines"
  shows "(fst (main raw output_path input_proteins file_of fs) = None
          \<and> distinct (chosen_proteins input_proteins parsed)
          \<and> ''generic_resname'' \<notin> set (chosen_proteins input_proteins parsed)
          \<longrightarrow> length row = length (chosen_proteins input_proteins parsed))
     \<and> (length row > length (chosen_proteins input_proteins parsed)
          \<longrightarrow> main raw output_path input_proteins file_of fs = (Some IndexError, fs))"
proof (intro conjI impI)
  assume "fst (main raw output_path input_proteins file_of fs) = None
          \<and> distinct (chosen_proteins input_proteins parsed)
          \<and> ''generic_resname'' \<notin> set (chosen_proteins input_proteins parsed)"
  with assms show "length row = length (chosen_proteins input_proteins parsed)"
    using column_count_lemma[of raw alignment_lines parsed output_path input_proteins file_of fs row]
    by blast
next
  assume "length row > length (chosen_proteins input_proteins parsed)"
  from label_records_too_long[OF assms(2) this] assms(1)
  show "main raw output_path input_proteins file_of fs = (Some IndexError, fs)"
    by (simp add: main_def)
qed

text \<open>
  The pairwise report with its own two names, and with the one name \<^verbatim>\<open>a\<close> given for its
  two columns.
\<close>

theorem column_count_example:
  "parse_gesamt (read_gesamt_lines (pairwise_report ''foo1.pdb'' ''foo2.pdb''))
     = Inr ([[''A:LEU:75'', ''A:LEU:65''], [[], ''A:LEU:66'']], [''foo1'', ''foo2''])
   \<and> fst (main (pairwise_report ''foo1.pdb'' ''foo2.pdb'') ''out'' None Some Map.empty) = None
   \<and> chosen_proteins None [''foo1'', ''foo2''] = [''foo1'', ''foo2'']
   \<and> distinct [''foo1'', ''foo2''] \<and> ''generic_resname'' \<notin> set [''foo1'', ''foo2'']
   \<and> length [[] :: string, ''A:LEU:66''] = length (chosen_proteins None [''foo1'', ''foo2''])
   \<and> length [''A:LEU:75'', ''A:LEU:65''] > length (chosen_proteins (Some [''a'']) [''foo1'', ''foo2''])
   \<and> main (pairwise_report ''foo1.pdb'' ''foo2.pdb'') ''out'' (Some [''a'']) Some Map.empty
       = (Some IndexError, Map.empty)"
proof -
  let ?raw = "pairwise_report ''foo1.pdb'' ''foo2.pdb''"
  let ?rows = "[[''A:LEU:75'', ''A:LEU:65''], [[], ''A:LEU:66'']]"
  have p: "parse_gesamt (read_gesamt_lines ?raw) = Inr (?rows, [''foo1'', ''foo2''])"
    by code_simp
  have m: "fst (main ?raw ''out'' None Some Map.empty) = None"
    by code_simp
  have c: "chosen_proteins None [''foo1'', ''foo2''] = [''foo1'', ''foo2'']"
    and c': "chosen_proteins (Some [''a'']) [''foo1'', ''foo2''] = [''a'']"
    by (simp_all add: chosen_proteins_def)
  have r2: "[[], ''A:LEU:66''] \<in> set ?rows" and r1: "[''A:LEU:75'', ''A:LEU:65''] \<in> set ?rows"
    by simp_all
  from column_count_of_completed_run[OF p r2, of "''out''" None Some Map.empty] m c
  have a: "length [[] :: string, ''A:LEU:66''] = length (chosen_proteins None [''foo1'', ''foo2''])"
    by simp
  from column_count_of_completed_run[OF p r1, of "''out''" "Some [''a'']" Some Map.empty] c'
  have b: "main ?raw ''out'' (Some [''a'']) Some Map.empty = (Some IndexError, Map.empty)"
    by simp
  from p m c c' a b show ?thesis by simp
qed

text \<open>
  Counterexample to claim C7 as the specification words it. With \<^verbatim>\<open>--proteins a b c\<close> the
  rows of the pairwise report have two tokens and there are three names. (The run then
  writes the files of \<^verbatim>\<open>a\<close> and \<^verbatim>\<open>b\<close> and ends with KeyError on the first record, which
  has no key \<^verbatim>\<open>c\<close>.)
\<close>

theorem column_count_three_names:
  "parse_gesamt (read_gesamt_lines (pairwise_report ''foo1.pdb'' ''foo2.pdb''))
     = Inr ([[''A:LEU:75'', ''A:LEU:65''], [[], ''A:LEU:66'']], [''foo1'', ''foo2''])
   \<and> chosen_proteins (Some [''a'', ''b'', ''c'']) [''foo1'', ''foo2''] = [''a'', ''b'', ''c'']
   \<and> length [''A:LEU:75'', ''A:LEU:65''] = 2 \<and> length [''a'', ''b'', ''c''] = 3
   \<and> fst (main (pairwise_report ''foo1.pdb'' ''foo2.pdb'') ''out'' (Some [''a'', ''b'', ''c'']) Some Map.empty)
       = Some KeyError"
proof -
  have p: "parse_gesamt (read_gesamt_lines (pairwise_report ''foo1.pdb'' ''foo2.pdb''))
     = Inr ([[''A:LEU:75'', ''A:LEU:65''], [[], ''A:LEU:66'']], [''foo1'', ''foo2''])"
    by code_simp
  have m: "fst (main (pairwise_report ''foo1.pdb'' ''foo2.pdb'') ''out'' (Some [''a'', ''b'', ''c'']) Some Map.empty)
       = Some KeyError"
    by code_simp
  from p m show ?thesis by (simp add: chosen_proteins_def)
qed

subsection \<open>Running twice\<close>

text \<open>
  Claim C8. Every function of the model is a function of its arguments alone, so the
  same descriptor is normalized to the same token and the same input gives the same
  records. For the files: the exception of a run and the content it writes do not depend
  on the files that were there before, and a second run on the files that the first run
  left, with the same input and arguments, leaves them as they are and ends as the first
  did.
\<close>

theorem rerun_writes_the_same_files:
  "main raw output_path input_proteins file_of
       (snd (main raw output_path input_proteins file_of fs))
     = main raw output_path input_proteins file_of fs
   \<and> main raw output_path input_proteins file_of fs
     = (fst (main raw output_path input_proteins file_of Map.empty),
        fs ++ snd (main raw output_path input_proteins file_of Map.empty))"
  using main_rerun[of raw output_path input_proteins file_of fs]
    main_add[of raw output_path input_proteins file_of fs] by blast

subsection \<open>The path of a label file\<close>

lemma py_rfind_absent: "ch \<notin> set p \<Longrightarrow> py_rfind ch p = - 1"
  by (simp add: py_rfind_def)

lemma py_rfind_present:
  assumes "ch \<in> set p"
  shows "0 \<le> py_rfind ch p" and "py_rfind ch p < int (length p)"
    and "p ! nat (py_rfind ch p) = ch"
    and "ch \<notin> set (drop (nat (py_rfind ch p) + 1) p)"
proof -
  define t where "t = takeWhile (\<lambda>x. x \<noteq> ch) (rev p)"
  have lt: "length t < length p"
  proof (rule ccontr)
    assume "\<not> length t < length p"
    moreover have "length t \<le> length (rev p)" unfolding t_def by (rule length_takeWhile_le)
    ultimately have "length t = length (rev p)" by simp
    moreover have "t = take (length t) (rev p)" unfolding t_def by (rule takeWhile_eq_take)
    ultimately have "t = rev p" by simp
    then have "\<forall>x \<in> set (rev p). x \<noteq> ch"
      unfolding t_def by (simp only: takeWhile_eq_all_conv)
    with assms show False by auto
  qed
  have i: "py_rfind ch p = int (length p - 1 - length t)"
    using assms lt by (simp add: py_rfind_def t_def)
  from i show "0 \<le> py_rfind ch p" by simp
  from i lt show "py_rfind ch p < int (length p)" by simp
  have "rev p ! length t = ch"
  proof -
    have "length t < length (rev p)" using lt by simp
    then have "\<not> (\<lambda>x. x \<noteq> ch) (rev p ! length t)"
      unfolding t_def by (rule nth_length_takeWhile)
    then show ?thesis by simp
  qed
  then have "p ! (length p - 1 - length t) = ch"
    using lt by (simp add: rev_nth Suc_diff_Suc)
  with i show "p ! nat (py_rfind ch p) = ch" by simp
  have "drop (length p - length t) p = rev (take (length t) (rev p))"
    by (simp add: rev_take)
  also have "take (length t) (rev p) = t"
    unfolding t_def by (rule takeWhile_eq_take[symmetric])
  finally have "drop (length p - length t) p = rev t" .
  moreover have "ch \<notin> set t" unfolding t_def by (auto dest: set_takeWhileD)
  moreover have "nat (py_rfind ch p) + 1 = length p - length t" using i lt by simp
  ultimately show "ch \<notin> set (drop (nat (py_rfind ch p) + 1) p)" by simp
qed

lemma py_rfind_ge: "- 1 \<le> py_rfind ch p"
  using py_rfind_present(1)[of ch p] py_rfind_absent[of ch p] by (cases "ch \<in> set p") auto

lemma no_sep_after_rfind:
  assumes "py_rfind ch p < int d"
  shows "ch \<notin> set (drop d p)"
proof (cases "ch \<in> set p")
  case False
  then show ?thesis by (auto dest: in_set_dropD)
next
  case True
  from py_rfind_present[OF True] assms have "nat (py_rfind ch p) + 1 \<le> d" by simp
  then have "drop d p = drop (d - (nat (py_rfind ch p) + 1)) (drop (nat (py_rfind ch p) + 1) p)"
    by simp
  then have "set (drop d p) \<subseteq> set (drop (nat (py_rfind ch p) + 1) p)"
    by (metis set_drop_subset)
  with py_rfind_present(4)[OF True] show ?thesis by blast
qed


lemma py_rfind_tail:
  "rev (takeWhile (\<lambda>x. x \<noteq> ch) (rev p)) = drop (nat (py_rfind ch p + 1)) p"
proof (cases "ch \<in> set p")
  case False
  then have "\<forall>x \<in> set (rev p). x \<noteq> ch" by auto
  then have "takeWhile (\<lambda>x. x \<noteq> ch) (rev p) = rev p"
    by (simp only: takeWhile_eq_all_conv)
  then have "rev (takeWhile (\<lambda>x. x \<noteq> ch) (rev p)) = p" by (simp only: rev_rev_ident)
  with False show ?thesis by (simp add: py_rfind_def)
next
  case True
  define t where "t = takeWhile (\<lambda>x. x \<noteq> ch) (rev p)"
  have le: "length t \<le> length p"
    unfolding t_def using length_takeWhile_le[of "\<lambda>x. x \<noteq> ch" "rev p"] by simp
  have "nat (py_rfind ch p + 1) = length p - length t"
    using True le by (simp add: py_rfind_def t_def)
  moreover have "drop (length p - length t) p = rev (take (length t) (rev p))"
    by (simp add: rev_take)
  moreover have "take (length t) (rev p) = t"
    unfolding t_def by (rule takeWhile_eq_take[symmetric])
  ultimately show ?thesis by (simp add: t_def)
qed

lemma py_slice_between:
  "a \<le> b \<Longrightarrow> b \<le> length xs \<Longrightarrow> py_slice xs (Some (int a)) (Some (int b)) = take (b - a) (drop a xs)"
  by (simp add: py_slice_def slice_bound_def Let_def min_def)

lemma splitext_cases:
  fixes p :: string
  defines "s \<equiv> py_rfind CHR ''/'' p" and "d \<equiv> py_rfind CHR ''.'' p"
  defines "base \<equiv> drop (nat (s + 1)) p"
  shows "(splitext p = (p, []) \<and> CHR ''.'' \<notin> set (dropWhile (\<lambda>c. c = CHR ''.'') base))
       \<or> (splitext p = (take (nat d) p, drop (nat d) p) \<and> 0 \<le> d \<and> s < d \<and> nat d < length p
           \<and> p ! nat d = CHR ''.'' \<and> CHR ''.'' \<notin> set (drop (nat d + 1) p)
           \<and> CHR ''.'' \<in> set (dropWhile (\<lambda>c. c = CHR ''.'') base))"
proof -
  let ?dots = "\<lambda>c. c = CHR ''.''"
  have s1: "- 1 \<le> s" unfolding s_def by (rule py_rfind_ge)
  have geom: "0 \<le> d \<and> nat d < length p \<and> p ! nat d = CHR ''.''
        \<and> CHR ''.'' \<notin> set (drop (nat d + 1) p)
        \<and> py_slice p (Some (s + 1)) (Some d) = take (nat d - nat (s + 1)) base
        \<and> base = take (nat d - nat (s + 1)) base @ CHR ''.'' # drop (nat d + 1) p"
    if sd: "s < d"
  proof -
    from s1 sd have d0: "0 \<le> d" by simp
    then have dot: "CHR ''.'' \<in> set p"
      unfolding d_def using py_rfind_absent[of "CHR ''.''" p] by (cases "CHR ''.'' \<in> set p") auto
    from py_rfind_present[OF dot] have dlt: "nat d < length p" and at: "p ! nat d = CHR ''.''"
      and after: "CHR ''.'' \<notin> set (drop (nat d + 1) p)"
      unfolding d_def by auto
    have ab: "nat (s + 1) \<le> nat d" using s1 sd by simp
    have "py_slice p (Some (int (nat (s + 1)))) (Some (int (nat d)))
        = take (nat d - nat (s + 1)) (drop (nat (s + 1)) p)"
      using ab dlt by (intro py_slice_between) simp_all
    then have sl: "py_slice p (Some (s + 1)) (Some d) = take (nat d - nat (s + 1)) base"
      using s1 d0 by (simp add: base_def)
    have "drop (nat d - nat (s + 1)) base = drop (nat d) p"
      using ab by (simp add: base_def)
    also have "\<dots> = CHR ''.'' # drop (nat d + 1) p"
      using dlt at Cons_nth_drop_Suc[of "nat d" p] by simp
    finally have "base = take (nat d - nat (s + 1)) base @ CHR ''.'' # drop (nat d + 1) p"
      using append_take_drop_id[of "nat d - nat (s + 1)" base] by simp
    with d0 dlt at after sl show ?thesis by blast
  qed
  show ?thesis
  proof (cases "d > s \<and> list_ex (\<lambda>c. c \<noteq> CHR ''.'') (py_slice p (Some (s + 1)) (Some d))")
    case True
    then have sd: "s < d" by simp
    note g = geom[OF sd]
    from True g obtain x where x: "x \<in> set (take (nat d - nat (s + 1)) base)" "\<not> ?dots x"
      by (auto simp: list_ex_iff)
    from g have b: "base = take (nat d - nat (s + 1)) base @ CHR ''.'' # drop (nat d + 1) p"
      by blast
    have "dropWhile ?dots (take (nat d - nat (s + 1)) base @ CHR ''.'' # drop (nat d + 1) p)
        = dropWhile ?dots (take (nat d - nat (s + 1)) base) @ CHR ''.'' # drop (nat d + 1) p"
      using x by (rule dropWhile_append1)
    then have "CHR ''.'' \<in> set (dropWhile ?dots (take (nat d - nat (s + 1)) base
                 @ CHR ''.'' # drop (nat d + 1) p))"
      by simp
    with b have inb: "CHR ''.'' \<in> set (dropWhile ?dots base)" by simp
    from g have d0: "0 \<le> d" by blast
    from True have "splitext p = (py_slice p None (Some d), py_slice p (Some d) None)"
      by (simp add: splitext_def Let_def s_def d_def)
    with d0 have "splitext p = (take (nat d) p, drop (nat d) p)"
      using py_slice_upto[of p "nat d"] py_slice_from[of p "nat d"] by simp
    with g sd inb show ?thesis by blast
  next
    case False
    then have sp: "splitext p = (p, [])"
      by (auto simp: splitext_def Let_def s_def d_def)
    have "CHR ''.'' \<notin> set (dropWhile ?dots base)"
    proof
      assume a: "CHR ''.'' \<in> set (dropWhile ?dots base)"
      then have "CHR ''.'' \<in> set (drop (nat (s + 1)) p)"
        unfolding base_def by (rule set_dropWhileD)
      with no_sep_after_rfind[of "CHR ''.''" p "nat (s + 1)"] have "\<not> d < int (nat (s + 1))"
        unfolding d_def by blast
      with s1 have sd: "s < d" by simp
      note g = geom[OF sd]
      from False sd g have all: "\<And>x. x \<in> set (take (nat d - nat (s + 1)) base) \<Longrightarrow> ?dots x"
        by (auto simp: list_ex_iff)
      from g have b: "base = take (nat d - nat (s + 1)) base @ CHR ''.'' # drop (nat d + 1) p"
        by blast
      have "dropWhile ?dots (take (nat d - nat (s + 1)) base @ CHR ''.'' # drop (nat d + 1) p)
          = dropWhile ?dots (CHR ''.'' # drop (nat d + 1) p)"
        using all by (rule dropWhile_append2)
      also have "\<dots> = dropWhile ?dots (drop (nat d + 1) p)" by simp
      finally have "dropWhile ?dots (take (nat d - nat (s + 1)) base @ CHR ''.'' # drop (nat d + 1) p)
          = dropWhile ?dots (drop (nat d + 1) p)" .
      with b have "dropWhile ?dots base = dropWhile ?dots (drop (nat d + 1) p)" by simp
      with a have "CHR ''.'' \<in> set (drop (nat d + 1) p)" by (auto dest: set_dropWhileD)
      with g show False by blast
    qed
    with sp show ?thesis by blast
  qed
qed

lemma splitext_parts:
  assumes "splitext p = (root, ext)"
  shows "p = root @ ext" and "CHR ''/'' \<notin> set ext" and "CHR ''.'' \<notin> set (tl ext)"
    and "ext = [] \<or> hd ext = CHR ''.''"
    and "ext \<noteq> [] \<longleftrightarrow> CHR ''.'' \<in> set (dropWhile (\<lambda>c. c = CHR ''.'')
                                  (rev (takeWhile (\<lambda>c. c \<noteq> CHR ''/'') (rev p))))"
proof -
  define s where "s = py_rfind CHR ''/'' p"
  define d where "d = py_rfind CHR ''.'' p"
  have base: "rev (takeWhile (\<lambda>c. c \<noteq> CHR ''/'') (rev p)) = drop (nat (s + 1)) p"
    unfolding s_def by (rule py_rfind_tail)
  have "p = root @ ext \<and> CHR ''/'' \<notin> set ext \<and> CHR ''.'' \<notin> set (tl ext)
      \<and> (ext = [] \<or> hd ext = CHR ''.'')
      \<and> (ext \<noteq> [] \<longleftrightarrow> CHR ''.'' \<in> set (dropWhile (\<lambda>c. c = CHR ''.'') (drop (nat (s + 1)) p)))"
    using splitext_cases[of p, folded s_def d_def]
  proof (elim disjE conjE)
    assume "splitext p = (p, [])"
      and "CHR ''.'' \<notin> set (dropWhile (\<lambda>c. c = CHR ''.'') (drop (nat (s + 1)) p))"
    with assms show ?thesis by simp
  next
    assume sp: "splitext p = (take (nat d) p, drop (nat d) p)" and "0 \<le> d" and sd: "s < d"
      and dlt: "nat d < length p" and at: "p ! nat d = CHR ''.''"
      and after: "CHR ''.'' \<notin> set (drop (nat d + 1) p)"
      and inb: "CHR ''.'' \<in> set (dropWhile (\<lambda>c. c = CHR ''.'') (drop (nat (s + 1)) p))"
    from sp assms have r: "root = take (nat d) p" and e: "ext = drop (nat d) p" by simp_all
    have "py_rfind CHR ''/'' p < int (nat d)" using sd \<open>0 \<le> d\<close> by (simp add: s_def)
    from no_sep_after_rfind[OF this] e have "CHR ''/'' \<notin> set ext" by simp
    moreover have "hd ext = CHR ''.''" using e at dlt by (simp add: hd_drop_conv_nth)
    moreover have "ext \<noteq> []" using e dlt by simp
    moreover have "tl ext = drop (nat d + 1) p" using e by (simp add: drop_Suc tl_drop)
    ultimately show ?thesis using r e after inb by simp
  qed
  with base show "p = root @ ext" and "CHR ''/'' \<notin> set ext" and "CHR ''.'' \<notin> set (tl ext)"
    and "ext = [] \<or> hd ext = CHR ''.''"
    and "ext \<noteq> [] \<longleftrightarrow> CHR ''.'' \<in> set (dropWhile (\<lambda>c. c = CHR ''.'')
                                  (rev (takeWhile (\<lambda>c. c \<noteq> CHR ''/'') (rev p))))"
    by simp_all
qed

lemma directories_stay:
  assumes "path = name @ ext" and "CHR ''/'' \<notin> set ext" and "path = dir @ ''/'' @ rest"
  shows "prefix (dir @ ''/'') name"
proof -
  from assms(1,3) have "(dir @ ''/'') @ rest = name @ ext" by simp
  then obtain us where "(dir @ ''/'' = name @ us \<and> us @ rest = ext)
      \<or> ((dir @ ''/'') @ us = name \<and> rest = us @ ext)"
    unfolding append_eq_append_conv2 by blast
  then show ?thesis
  proof
    assume a: "dir @ ''/'' = name @ us \<and> us @ rest = ext"
    have "us = []"
    proof (rule ccontr)
      assume "us \<noteq> []"
      with a have "last us = CHR ''/''" by (metis last_appendR last_snoc)
      with \<open>us \<noteq> []\<close> have "CHR ''/'' \<in> set us" by (metis last_in_set)
      with a assms(2) show False by auto
    qed
    with a show ?thesis by simp
  next
    assume "(dir @ ''/'') @ us = name \<and> rest = us @ ext"
    then show ?thesis by (auto simp: prefix_def)
  qed
qed

lemma read_proteins_mem:
  "read_proteins marker gesamt_lines = Inr proteins \<Longrightarrow> name \<in> set proteins
   \<Longrightarrow> \<exists>line \<in> set gesamt_lines. marker line \<and> protein_of_line line = Inr name"
proof (induction gesamt_lines arbitrary: proteins)
  case Nil
  then show ?case by simp
next
  case (Cons l ls)
  show ?case
  proof (cases "marker l")
    case False
    with Cons.prems have "read_proteins marker ls = Inr proteins" by simp
    from Cons.IH[OF this Cons.prems(2)] show ?thesis by auto
  next
    case True
    with Cons.prems(1) obtain p ps where p: "protein_of_line l = Inr p"
      and ps: "read_proteins marker ls = Inr ps" and eq: "proteins = p # ps"
      by (auto split: sum.splits)
    show ?thesis
    proof (cases "name = p")
      case True
      with p \<open>marker l\<close> show ?thesis by auto
    next
      case False
      with eq Cons.prems(2) have "name \<in> set ps" by simp
      from Cons.IH[OF ps this] show ?thesis by auto
    qed
  qed
qed

lemma parse_gesamt_names:
  assumes "parse_gesamt gesamt_lines = Inr (alignment_lines, parsed)"
  shows "read_proteins (if pairwise_format gesamt_lines then pairwise_marker else multiway_marker)
           gesamt_lines = Inr parsed"
  using assms
  by (auto simp: parse_gesamt_def parse_two_queries_def parse_more_than_two_queries_def
           split: if_splits sum.splits)


lemma write_files_dom:
  assumes "write_files file_of output_path records proteins fs = (None, fs')"
  shows "dom fs' = dom fs
           \<union> {f. \<exists>S \<in> set proteins. py_open file_of (label_path output_path S) = Inr f}"
proof (rule set_eqI)
  fix f
  show "f \<in> dom fs' \<longleftrightarrow>
        f \<in> dom fs \<union> {f. \<exists>S \<in> set proteins. py_open file_of (label_path output_path S) = Inr f}"
  proof (cases "fs f \<noteq> None \<or> (\<exists>S \<in> set proteins. py_open file_of (label_path output_path S) = Inr f)")
    case True
    from write_files_written[OF assms True] True show ?thesis by auto
  next
    case False
    then have "\<And>S. S \<in> set proteins \<Longrightarrow> py_open file_of (label_path output_path S) \<noteq> Inr f"
      by blast
    from write_files_unwritten[OF assms this] False show ?thesis by (auto simp: dom_def)
  qed
qed

text \<open>
  Claim C10. Without a \<^verbatim>\<open>--proteins\<close> list, every structure name comes from a line of the
  input that holds a name marker of the parser the run selects: the name is the first
  component of \<^verbatim>\<open>os.path.splitext\<close> of the quoted path of the line, and the extension is
  the second. The quoted path is the name followed by the extension. The extension is
  empty, or it starts with a dot and holds no other dot and no slash; it is not empty
  exactly when the last component of the path holds a dot after its leading dots. So
  only the last extension is removed, and every directory of the path, with its slash,
  is at the head of the name. A run that ends without an exception has opened the file
  at \<^verbatim>\<open><output_path>/<name>.label\<close> and written it, and the files it has added are those
  that open at these paths for the names.
\<close>

theorem label_file_keeps_directories:
  assumes "parse_gesamt (read_gesamt_lines raw) = Inr (alignment_lines, parsed)"
    and "name \<in> set parsed"
    and "fst (main raw output_path None file_of fs) = None"
  shows "\<exists>line path ext f.
           line \<in> set (read_gesamt_lines raw)
           \<and> (if pairwise_format (read_gesamt_lines raw) then pairwise_marker line
               else multiway_marker line)
           \<and> py_index (py_split [quote] line) 1 = Inr path
           \<and> name = fst (splitext path) \<and> ext = snd (splitext path)
           \<and> path = name @ ext
           \<and> CHR ''/'' \<notin> set ext \<and> CHR ''.'' \<notin> set (tl ext)
           \<and> (ext = [] \<or> hd ext = CHR ''.'')
           \<and> (ext \<noteq> [] \<longleftrightarrow>
                CHR ''.'' \<in> set (dropWhile (\<lambda>c. c = CHR ''.'')
                                   (rev (takeWhile (\<lambda>c. c \<noteq> CHR ''/'') (rev path)))))
           \<and> (\<forall>dir rest. path = dir @ ''/'' @ rest \<longrightarrow> prefix (dir @ ''/'') name)
           \<and> py_open file_of (output_path @ ''/'' @ name @ ''.label'') = Inr f
           \<and> snd (main raw output_path None file_of fs) f \<noteq> None
           \<and> dom (snd (main raw output_path None file_of fs))
               = dom fs \<union> {g. \<exists>protein \<in> set parsed.
                               py_open file_of (output_path @ ''/'' @ protein @ ''.label'') = Inr g}"
proof -
  from read_proteins_mem[OF parse_gesamt_names[OF assms(1)] assms(2)] obtain line where
    l: "line \<in> set (read_gesamt_lines raw)"
    and mk: "(if pairwise_format (read_gesamt_lines raw) then pairwise_marker else multiway_marker) line"
    and n: "protein_of_line line = Inr name" by blast
  from mk have mk': "if pairwise_format (read_gesamt_lines raw) then pairwise_marker line
      else multiway_marker line"
    by (simp split: if_splits)
  from n obtain path where p: "py_index (py_split [quote] line) 1 = Inr path"
    and nm: "name = fst (splitext path)"
    by (auto simp: protein_of_line_def split: sum.splits)
  define ext where "ext = snd (splitext path)"
  from nm have sp: "splitext path = (name, ext)" by (simp add: ext_def)
  note parts = splitext_parts[OF sp]
  have dirs: "\<forall>dir rest. path = dir @ ''/'' @ rest \<longrightarrow> prefix (dir @ ''/'') name"
    using directories_stay[OF parts(1,2)] by blast
  from main_None[OF assms(3)] assms(1) obtain records where
    m: "main raw output_path None file_of fs
          = write_files file_of output_path records (chosen_proteins None parsed) fs"
    by auto
  with assms(3) obtain fs' where
    w: "write_files file_of output_path records (chosen_proteins None parsed) fs = (None, fs')"
    by (cases "write_files file_of output_path records (chosen_proteins None parsed) fs") auto
  have c: "chosen_proteins None parsed = parsed" by (simp add: chosen_proteins_def)
  from write_files_None[OF w] assms(2) obtain f where
    f: "py_open file_of (label_path output_path name) = Inr f"
    unfolding c by blast
  with assms(2) have "fs f \<noteq> None
      \<or> (\<exists>S \<in> set (chosen_proteins None parsed). py_open file_of (label_path output_path S) = Inr f)"
    unfolding c by blast
  from write_files_written[OF w this] m w
  have wr: "snd (main raw output_path None file_of fs) f \<noteq> None" by simp
  from f have f': "py_open file_of (output_path @ ''/'' @ name @ ''.label'') = Inr f"
    by (simp add: label_path_def)
  from write_files_dom[OF w] m w
  have dm: "dom (snd (main raw output_path None file_of fs))
      = dom fs \<union> {g. \<exists>protein \<in> set parsed.
                      py_open file_of (output_path @ ''/'' @ protein @ ''.label'') = Inr g}"
    unfolding c by (simp add: label_path_def)
  from l mk' p nm ext_def parts dirs f' wr dm show ?thesis by blast
qed

text \<open>
  For the quoted path \<^verbatim>\<open>dir/foo1.pdb\<close> the name is \<^verbatim>\<open>dir/foo1\<close>, and the run writes
  \<^verbatim>\<open>out/dir/foo1.label\<close>, not \<^verbatim>\<open>out/foo1.label\<close>. Of \<^verbatim>\<open>model.v2.pdb\<close> only \<^verbatim>\<open>.pdb\<close> is
  removed, and of \<^verbatim>\<open>dir.d/.hidden\<close> nothing.
\<close>

theorem label_file_keeps_directories_example:
  "parse_gesamt (read_gesamt_lines (pairwise_report ''dir/foo1.pdb'' ''foo2.pdb''))
     = Inr ([[''A:LEU:75'', ''A:LEU:65''], [[], ''A:LEU:66'']], [''dir/foo1'', ''foo2''])
   \<and> fst (main (pairwise_report ''dir/foo1.pdb'' ''foo2.pdb'') ''out'' None Some Map.empty) = None
   \<and> splitext ''dir/foo1.pdb'' = (''dir/foo1'', ''.pdb'')
   \<and> splitext ''model.v2.pdb'' = (''model.v2'', ''.pdb'')
   \<and> splitext ''dir.d/.hidden'' = (''dir.d/.hidden'', [])
   \<and> py_open Some ''out/dir/foo1.label'' = Inr ''out/dir/foo1.label''
   \<and> snd (main (pairwise_report ''dir/foo1.pdb'' ''foo2.pdb'') ''out'' None Some Map.empty)
        ''out/dir/foo1.label'' \<noteq> None
   \<and> dom (snd (main (pairwise_report ''dir/foo1.pdb'' ''foo2.pdb'') ''out'' None Some Map.empty))
       = {''out/dir/foo1.label'', ''out/foo2.label''}
   \<and> snd (main (pairwise_report ''dir/foo1.pdb'' ''foo2.pdb'') ''out'' None Some Map.empty)
        ''out/foo1.label'' = None"
proof -
  let ?raw = "pairwise_report ''dir/foo1.pdb'' ''foo2.pdb''"
  let ?run = "main ?raw ''out'' None Some Map.empty"
  have p: "parse_gesamt (read_gesamt_lines ?raw)
     = Inr ([[''A:LEU:75'', ''A:LEU:65''], [[], ''A:LEU:66'']], [''dir/foo1'', ''foo2''])"
    by code_simp
  have m: "fst ?run = None"
    by code_simp
  have s: "splitext ''dir/foo1.pdb'' = (''dir/foo1'', ''.pdb'')"
    and s2: "splitext ''model.v2.pdb'' = (''model.v2'', ''.pdb'')"
    and s3: "splitext ''dir.d/.hidden'' = (''dir.d/.hidden'', [])"
    by code_simp+
  have o1: "py_open Some ''out/dir/foo1.label'' = Inr ''out/dir/foo1.label''"
    and o2: "py_open Some ''out/foo2.label'' = Inr ''out/foo2.label''"
    by code_simp+
  have n: "''dir/foo1'' \<in> set [''dir/foo1'', ''foo2'']" by simp
  from label_file_keeps_directories[OF p n m] obtain f where
    f: "py_open Some (''out'' @ ''/'' @ ''dir/foo1'' @ ''.label'') = Inr f"
    and w: "snd ?run f \<noteq> None"
    and d: "dom (snd ?run)
       = dom (Map.empty :: string \<Rightarrow> string option)
         \<union> {g. \<exists>protein \<in> set [''dir/foo1'', ''foo2''].
                 py_open Some (''out'' @ ''/'' @ protein @ ''.label'') = Inr g}"
    by blast
  from f o1 have "f = ''out/dir/foo1.label''" by simp
  with w have a: "snd ?run ''out/dir/foo1.label'' \<noteq> None" by simp
  have "{g. \<exists>protein \<in> set [''dir/foo1'', ''foo2''].
            py_open Some (''out'' @ ''/'' @ protein @ ''.label'') = Inr g}
      = {''out/dir/foo1.label'', ''out/foo2.label''}"
    using o1 o2 by auto
  with d have b: "dom (snd ?run) = {''out/dir/foo1.label'', ''out/foo2.label''}" by simp
  then have "''out/foo1.label'' \<notin> dom (snd ?run)" by simp
  then have c: "snd ?run ''out/foo1.label'' = None" by (simp add: dom_def)
  from p m s s2 s3 o1 a b c show ?thesis by blast
qed

end
